theory Spec2Isabelle
  imports Complex_Main
begin

section \<open>Numbers, vectors and the host environment\<close>

text \<open>
  The TypeScript sources compute with JavaScript numbers.  They are modelled as
  real numbers: infinities and NaN are outside the model, and a division by zero
  has HOL's value \<open>0\<close> where JavaScript yields an infinity or NaN (this only
  concerns the clip-space coordinates uploaded by the render methods while the
  logical size is still zero).  A count of particles is a number like any other,
  so it may be fractional or negative.  Arithmetic is exact, except where
  \<open>FloatingParticles.resize\<close> rescales positions: there every operation rounds to
  the nearest double, as defined next.
\<close>

text \<open>
  Rounding to the nearest binary64 number, ties to even: the real \<open>a\<close> is cut to 53
  significant bits at its binary exponent \<open>e\<close>, which is at least \<open>-1022\<close> (below that
  the numbers are subnormal and the spacing stays \<open>2 powi (-1074)\<close>).  Overflow to an
  infinity is outside the model.
\<close>

definition rne :: "real \<Rightarrow> int" where
  "rne y =
     (let f = \<lfloor>y\<rfloor> in
      if y - of_int f < 1 / 2 then f
      else if 1 / 2 < y - of_int f then f + 1
      else if even f then f else f + 1)"

definition binary64 :: "real \<Rightarrow> real" where
  "binary64 a =
     (if a = 0 then 0
      else (let e = max \<lfloor>log 2 \<bar>a\<bar>\<rfloor> (- 1022)
            in of_int (rne (a / 2 powi (e - 52))) * 2 powi (e - 52)))"

text \<open>
  What the code throws: the two errors of the constructor of the engine, and the
  \<open>RangeError\<close> of an assignment to the length of an array of a number that is not
  a valid length.  When a method throws, the changes it has made to its object up to
  then stay, so a method that can throw returns the error, if any, next to the state.
\<close>

datatype error = CanvasNotFound string | WebGLNotSupported | RangeError

record vec2 =
  vx :: real
  vy :: real

text \<open>
  Modelled from the spec: the class \<open>Vec2\<close> of \<open>utils/math.ts\<close>, which is not part
  of the sources at hand.  The documentation lists \<open>vec.set(x, y)\<close>,
  \<open>vec.add(otherVec)\<close> and \<open>vec.distance(otherVec)\<close>; the callers discard the result
  of \<open>add\<close> and \<open>set\<close>, so both update the receiver, and the distance is the
  Euclidean one.
\<close>

definition Vec2 :: "real \<Rightarrow> real \<Rightarrow> vec2" where
  "Vec2 a b = \<lparr>vx = a, vy = b\<rparr>"

definition vec2_set :: "vec2 \<Rightarrow> real \<Rightarrow> real \<Rightarrow> vec2" where
  "vec2_set v a b = v\<lparr>vx := a, vy := b\<rparr>"

definition vec2_add :: "vec2 \<Rightarrow> vec2 \<Rightarrow> vec2" where
  "vec2_add v u = v\<lparr>vx := vx v + vx u, vy := vy v + vy u\<rparr>"

definition distance :: "vec2 \<Rightarrow> vec2 \<Rightarrow> real" where
  "distance v u = sqrt ((vx v - vx u)\<^sup>2 + (vy v - vy u)\<^sup>2)"

datatype draw_mode = POINTS | LINES | TRIANGLES

text \<open>
  Everything the library does to its surroundings is recorded, in order, in a log:
  the calls made on the WebGL context and, for the frame loop of the engine, the
  invocations of the \<open>update\<close> and \<open>render\<close> methods of the registered effects
  (named by the reference of the effect object).  Attribute and uniform locations
  are named by their shader identifier; a colour uniform is logged with the hex
  string it is computed from.
\<close>

datatype event =
    ClearColor real real real real
  | EnableBlend
  | BlendFunc
  | Clear
  | Viewport real real real real
  | CreateProgram nat
  | CreateBuffer nat
  | UseProgram nat
  | BindBuffer nat
  | BufferData "real list"
  | VertexAttribPointer string nat nat nat
  | Uniform1f string real
  | Uniform2f string real real
  | UniformColor string string
  | DrawArrays draw_mode nat nat
  | DeleteProgram nat
  | DeleteBuffer nat
  | EffectUpdate nat real real
  | EffectRender nat

text \<open>
  The part of the host that an effect can touch: the log, the next free handle for
  GPU objects, whether shader programs link on this host, the values that the
  coming calls of \<open>Math.random()\<close> return, and the reading of \<open>performance.now()\<close>.
\<close>

record env =
  log :: "event list"
  next_handle :: nat
  link_ok :: bool
  randoms :: "nat \<Rightarrow> real"
  clock :: real

definition emit :: "event \<Rightarrow> 'a env_scheme \<Rightarrow> 'a env_scheme" where
  "emit ev h = h\<lparr>log := log h @ [ev]\<rparr>"

definition emits :: "event list \<Rightarrow> 'a env_scheme \<Rightarrow> 'a env_scheme" where
  "emits evs h = h\<lparr>log := log h @ evs\<rparr>"

definition math_random :: "'a env_scheme \<Rightarrow> real \<times> 'a env_scheme" where
  "math_random h = (randoms h 0, h\<lparr>randoms := (\<lambda>n. randoms h (Suc n))\<rparr>)"

text \<open>
  Modelled from the spec: \<open>random(min, max)\<close> of \<open>utils/math.ts\<close> (not part of the
  sources at hand), documented as ``random number between min and max'': one call
  of \<open>Math.random()\<close>, scaled to the interval.
\<close>

definition random_range :: "real \<Rightarrow> real \<Rightarrow> 'a env_scheme \<Rightarrow> real \<times> 'a env_scheme" where
  "random_range lo hi h = (case math_random h of (u, h') \<Rightarrow> (lo + u * (hi - lo), h'))"

text \<open>
  Modelled from the spec: \<open>createProgram\<close> and \<open>createQuad\<close> of \<open>utils/shaders.ts\<close>
  (not part of the sources at hand), which ``compile and link GPU program objects
  from source pairs'' and expose ``a quad-geometry helper''.  A program that links
  gets a fresh handle, otherwise the result is \<open>null\<close>; the quad helper returns a
  fresh buffer, whose contents are not modelled.
\<close>

definition createProgram :: "'a env_scheme \<Rightarrow> nat option \<times> 'a env_scheme" where
  "createProgram h =
     (if link_ok h
      then (Some (next_handle h),
            emit (CreateProgram (next_handle h)) (h\<lparr>next_handle := Suc (next_handle h)\<rparr>))
      else (None, h))"

definition createBuffer :: "'a env_scheme \<Rightarrow> nat option \<times> 'a env_scheme" where
  "createBuffer h =
     (Some (next_handle h),
      emit (CreateBuffer (next_handle h)) (h\<lparr>next_handle := Suc (next_handle h)\<rparr>))"

definition createQuad :: "'a env_scheme \<Rightarrow> nat option \<times> 'a env_scheme" where
  "createQuad h = createBuffer h"

section \<open>ParticleSystem\<close>

record ps_options =
  ps_count :: real
  ps_color :: string
  ps_size :: real
  ps_speed :: real
  ps_lifetime :: real
  ps_gravity :: vec2
  ps_emitterPosition :: vec2
  ps_emitterRadius :: real
  ps_fadeOut :: bool

record particle =
  position :: vec2
  velocity :: vec2
  life :: real
  maxLife :: real
  psize :: real

record particle_system =
  ps_opts :: ps_options
  ps_particles :: "particle list"
  ps_program :: "nat option"
  ps_positionBuffer :: "nat option"
  ps_width :: real
  ps_height :: real

text \<open>The constructor: the options as given (defaults already filled in), no particles yet.\<close>

definition ParticleSystem :: "ps_options \<Rightarrow> particle_system" where
  "ParticleSystem options =
     \<lparr>ps_opts = options, ps_particles = [], ps_program = None, ps_positionBuffer = None,
      ps_width = 0, ps_height = 0\<rparr>"

definition ps_default_options :: ps_options where
  "ps_default_options =
     \<lparr>ps_count = 1000, ps_color = ''#ffffff'', ps_size = 3, ps_speed = 100, ps_lifetime = 3,
      ps_gravity = Vec2 0 (-50), ps_emitterPosition = Vec2 0 0, ps_emitterRadius = 50,
      ps_fadeOut = True\<rparr>"

text \<open>\<open>createParticle\<close>: four random draws, in the order angle, radius, speed, size.\<close>

definition createParticle :: "ps_options \<Rightarrow> 'a env_scheme \<Rightarrow> particle \<times> 'a env_scheme" where
  "createParticle options h =
     (case random_range 0 (pi * 2) h of (angle, h1) \<Rightarrow>
      case random_range 0 (ps_emitterRadius options) h1 of (radius, h2) \<Rightarrow>
      case random_range (ps_speed options * 0.5) (ps_speed options * 1.5) h2 of (speed, h3) \<Rightarrow>
      case random_range (ps_size options * 0.5) (ps_size options * 1.5) h3 of (sz, h4) \<Rightarrow>
        (\<lparr>position = Vec2 (vx (ps_emitterPosition options) + cos angle * radius)
                           (vy (ps_emitterPosition options) + sin angle * radius),
          velocity = Vec2 (cos angle * speed) (sin angle * speed),
          life = ps_lifetime options,
          maxLife = ps_lifetime options,
          psize = sz\<rparr>, h4))"

text \<open>
  The loop of \<open>initParticles\<close>: push a fresh particle while the counter \<open>i\<close> is below
  the count.  (An array holds at most \<open>2 ^ 32 - 1\<close> elements; a host runs out of memory
  before, and the bound is not modelled.)
\<close>

function ps_init_loop :: "ps_options \<Rightarrow> nat \<Rightarrow> particle list \<Rightarrow> 'a env_scheme
    \<Rightarrow> particle list \<times> 'a env_scheme" where
  "ps_init_loop options i ps h =
     (if real i < ps_count options
      then (case createParticle options h of (p, h') \<Rightarrow> ps_init_loop options (Suc i) (ps @ [p]) h')
      else (ps, h))"
  by pat_completeness auto
termination
  by (relation "measure (\<lambda>(options, i, ps, h). nat \<lceil>ps_count options\<rceil> - i)")
     (auto simp: diff_less_mono2 zless_nat_eq_int_zless less_ceiling_iff)

declare ps_init_loop.simps [simp del]

definition ps_initParticles :: "particle_system \<Rightarrow> 'a env_scheme
    \<Rightarrow> particle_system \<times> 'a env_scheme" where
  "ps_initParticles s h =
     (case ps_init_loop (ps_opts s) 0 [] h of
        (ps, h') \<Rightarrow> (s\<lparr>ps_particles := ps\<rparr>, h'))"

definition ps_init :: "particle_system \<Rightarrow> 'a env_scheme \<Rightarrow> particle_system \<times> 'a env_scheme" where
  "ps_init s h =
     (case createProgram h of (prog, h1) \<Rightarrow>
      case createBuffer h1 of (buf, h2) \<Rightarrow>
        ps_initParticles (s\<lparr>ps_program := prog, ps_positionBuffer := buf\<rparr>) h2)"

text \<open>
  \<open>update\<close>: the loop over the indices of the particle array.  A dead particle is
  overwritten at its index; a live one gets its velocity and then its position
  advanced.  The argument \<open>time\<close> is not used by the method.
\<close>

definition ps_step :: "ps_options \<Rightarrow> real \<Rightarrow> particle \<Rightarrow> particle" where
  "ps_step options deltaTime p =
     (let p1 = p\<lparr>velocity := vec2_add (velocity p)
                   (Vec2 (vx (ps_gravity options) * deltaTime) (vy (ps_gravity options) * deltaTime))\<rparr>
      in p1\<lparr>position := vec2_add (position p1)
                   (Vec2 (vx (velocity p1) * deltaTime) (vy (velocity p1) * deltaTime))\<rparr>)"

function ps_update_loop :: "ps_options \<Rightarrow> real \<Rightarrow> nat \<Rightarrow> particle list \<Rightarrow> 'a env_scheme
    \<Rightarrow> particle list \<times> 'a env_scheme" where
  "ps_update_loop options deltaTime i ps h =
     (if i < length ps then
        (let p = (ps ! i)\<lparr>life := life (ps ! i) - deltaTime\<rparr> in
         if life p \<le> 0 then
           (case createParticle options h of
              (q, h') \<Rightarrow> ps_update_loop options deltaTime (Suc i) (ps[i := q]) h')
         else ps_update_loop options deltaTime (Suc i) (ps[i := ps_step options deltaTime p]) h)
      else (ps, h))"
  by pat_completeness auto
termination
  by (relation "measure (\<lambda>(options, deltaTime, i, ps, h). length ps - i)") auto

declare ps_update_loop.simps [simp del]

definition ps_update :: "real \<Rightarrow> real \<Rightarrow> particle_system \<Rightarrow> 'a env_scheme
    \<Rightarrow> particle_system \<times> 'a env_scheme" where
  "ps_update time deltaTime s h =
     (case ps_update_loop (ps_opts s) deltaTime 0 (ps_particles s) h of
        (ps, h') \<Rightarrow> (s\<lparr>ps_particles := ps\<rparr>, h'))"

text \<open>\<open>render\<close>: four numbers for each particle, uploaded and drawn as points.\<close>

definition ps_vertex :: "particle_system \<Rightarrow> particle \<Rightarrow> real list" where
  "ps_vertex s p =
     [(vx (position p) / ps_width s) * 2 - 1,
      (vy (position p) / ps_height s) * 2 - 1,
      psize p,
      (if ps_fadeOut (ps_opts s) then life p / maxLife p else 1)]"

definition ps_render :: "particle_system \<Rightarrow> 'a env_scheme \<Rightarrow> 'a env_scheme" where
  "ps_render s h =
     (case (ps_program s, ps_positionBuffer s) of
        (Some prog, Some buf) \<Rightarrow>
          emits [UseProgram prog, BindBuffer buf,
                 BufferData (concat (map (ps_vertex s) (ps_particles s))),
                 VertexAttribPointer ''a_position'' 2 16 0,
                 VertexAttribPointer ''a_size'' 1 16 8,
                 VertexAttribPointer ''a_alpha'' 1 16 12,
                 UniformColor ''u_color'' (ps_color (ps_opts s)),
                 DrawArrays POINTS 0 (length (ps_particles s))] h
      | _ \<Rightarrow> h)"

definition ps_resize :: "real \<Rightarrow> real \<Rightarrow> particle_system \<Rightarrow> particle_system" where
  "ps_resize width height s =
     (let s1 = s\<lparr>ps_width := width, ps_height := height\<rparr> in
      if vx (ps_emitterPosition (ps_opts s1)) = 0 \<and> vy (ps_emitterPosition (ps_opts s1)) = 0
      then s1\<lparr>ps_opts := (ps_opts s1)\<lparr>ps_emitterPosition :=
                 vec2_set (ps_emitterPosition (ps_opts s1)) (width / 2) (height / 2)\<rparr>\<rparr>
      else s1)"

definition ps_destroy :: "particle_system \<Rightarrow> 'a env_scheme \<Rightarrow> particle_system \<times> 'a env_scheme" where
  "ps_destroy s h =
     (let (s1, h1) = (case ps_program s of
                        Some prog \<Rightarrow> (s\<lparr>ps_program := None\<rparr>, emit (DeleteProgram prog) h)
                      | None \<Rightarrow> (s, h))
      in case ps_positionBuffer s1 of
           Some buf \<Rightarrow> (s1\<lparr>ps_positionBuffer := None\<rparr>, emit (DeleteBuffer buf) h1)
         | None \<Rightarrow> (s1, h1))"

definition setEmitterPosition :: "real \<Rightarrow> real \<Rightarrow> particle_system \<Rightarrow> particle_system" where
  "setEmitterPosition a b s =
     s\<lparr>ps_opts := (ps_opts s)\<lparr>ps_emitterPosition := vec2_set (ps_emitterPosition (ps_opts s)) a b\<rparr>\<rparr>"

definition setColor :: "string \<Rightarrow> particle_system \<Rightarrow> particle_system" where
  "setColor c s = s\<lparr>ps_opts := (ps_opts s)\<lparr>ps_color := c\<rparr>\<rparr>"

text \<open>
  \<open>setCount\<close>: record the count, push fresh particles while the array is shorter
  than the count, then, if the array is longer than the count, assign the count to
  the length of the array.  That assignment truncates the array when the count is a
  non-negative integer and throws a \<open>RangeError\<close> otherwise.
\<close>

function grow_particles :: "ps_options \<Rightarrow> real \<Rightarrow> particle list \<Rightarrow> 'a env_scheme
    \<Rightarrow> particle list \<times> 'a env_scheme" where
  "grow_particles options n ps h =
     (if real (length ps) < n
      then (case createParticle options h of (p, h') \<Rightarrow> grow_particles options n (ps @ [p]) h')
      else (ps, h))"
  by pat_completeness auto
termination
  by (relation "measure (\<lambda>(options, n, ps, h). nat \<lceil>n\<rceil> - length ps)")
     (auto simp: diff_less_mono2 zless_nat_eq_int_zless less_ceiling_iff)

declare grow_particles.simps [simp del]

definition is_array_length :: "real \<Rightarrow> bool" where
  "is_array_length n \<longleftrightarrow> 0 \<le> n \<and> of_int \<lfloor>n\<rfloor> = n"

definition setCount :: "real \<Rightarrow> particle_system \<Rightarrow> 'a env_scheme
    \<Rightarrow> error option \<times> particle_system \<times> 'a env_scheme" where
  "setCount n s h =
     (let s1 = s\<lparr>ps_opts := (ps_opts s)\<lparr>ps_count := n\<rparr>\<rparr> in
      case grow_particles (ps_opts s1) n (ps_particles s1) h of
        (ps, h') \<Rightarrow>
          (if real (length ps) > n
           then (if is_array_length n
                 then (None, s1\<lparr>ps_particles := take (nat \<lfloor>n\<rfloor>) ps\<rparr>, h')
                 else (Some RangeError, s1\<lparr>ps_particles := ps\<rparr>, h'))
           else (None, s1\<lparr>ps_particles := ps\<rparr>, h')))"

section \<open>FloatingParticles\<close>

record fp_options =
  fp_count :: real
  fp_color :: string
  fp_size :: real
  fp_speed :: real
  fp_connectionDistance :: real
  fp_showConnections :: bool

record floating_particle =
  fposition :: vec2
  fvelocity :: vec2
  fsize :: real

record floating_particles =
  fp_opts :: fp_options
  fp_particles :: "floating_particle list"
  fp_particleProgram :: "nat option"
  fp_lineProgram :: "nat option"
  fp_particleBuffer :: "nat option"
  fp_lineBuffer :: "nat option"
  fp_width :: real
  fp_height :: real

definition FloatingParticles :: "fp_options \<Rightarrow> floating_particles" where
  "FloatingParticles options =
     \<lparr>fp_opts = options, fp_particles = [], fp_particleProgram = None, fp_lineProgram = None,
      fp_particleBuffer = None, fp_lineBuffer = None, fp_width = 0, fp_height = 0\<rparr>"

definition fp_default_options :: fp_options where
  "fp_default_options =
     \<lparr>fp_count = 100, fp_color = ''#ffffff'', fp_size = 2, fp_speed = 20,
      fp_connectionDistance = 150, fp_showConnections = True\<rparr>"

text \<open>One particle of \<open>initParticles\<close>: five random draws, in the order x, y, vx, vy, size.\<close>

definition fp_new_particle :: "floating_particles \<Rightarrow> 'a env_scheme
    \<Rightarrow> floating_particle \<times> 'a env_scheme" where
  "fp_new_particle s h =
     (case random_range 0 (fp_width s) h of (px, h1) \<Rightarrow>
      case random_range 0 (fp_height s) h1 of (py, h2) \<Rightarrow>
      case random_range (- fp_speed (fp_opts s)) (fp_speed (fp_opts s)) h2 of (qx, h3) \<Rightarrow>
      case random_range (- fp_speed (fp_opts s)) (fp_speed (fp_opts s)) h3 of (qy, h4) \<Rightarrow>
      case random_range (fp_size (fp_opts s) * 0.5) (fp_size (fp_opts s) * 1.5) h4 of (sz, h5) \<Rightarrow>
        (\<lparr>fposition = Vec2 px py, fvelocity = Vec2 qx qy, fsize = sz\<rparr>, h5))"

function fp_init_loop :: "floating_particles \<Rightarrow> nat \<Rightarrow> floating_particle list \<Rightarrow> 'a env_scheme
    \<Rightarrow> floating_particle list \<times> 'a env_scheme" where
  "fp_init_loop s i ps h =
     (if real i < fp_count (fp_opts s)
      then (case fp_new_particle s h of (p, h') \<Rightarrow> fp_init_loop s (Suc i) (ps @ [p]) h')
      else (ps, h))"
  by pat_completeness auto
termination
  by (relation "measure (\<lambda>(s, i, ps, h). nat \<lceil>fp_count (fp_opts s)\<rceil> - i)")
     (auto simp: diff_less_mono2 zless_nat_eq_int_zless less_ceiling_iff)

declare fp_init_loop.simps [simp del]

definition fp_initParticles :: "floating_particles \<Rightarrow> 'a env_scheme
    \<Rightarrow> floating_particles \<times> 'a env_scheme" where
  "fp_initParticles s h =
     (case fp_init_loop s 0 [] h of
        (ps, h') \<Rightarrow> (s\<lparr>fp_particles := ps\<rparr>, h'))"

definition fp_init :: "floating_particles \<Rightarrow> 'a env_scheme
    \<Rightarrow> floating_particles \<times> 'a env_scheme" where
  "fp_init s h =
     (case createProgram h of (pprog, h1) \<Rightarrow>
      case createProgram h1 of (lprog, h2) \<Rightarrow>
      case createBuffer h2 of (pbuf, h3) \<Rightarrow>
      case createBuffer h3 of (lbuf, h4) \<Rightarrow>
        fp_initParticles (s\<lparr>fp_particleProgram := pprog, fp_lineProgram := lprog,
                             fp_particleBuffer := pbuf, fp_lineBuffer := lbuf\<rparr>) h4)"

text \<open>
  \<open>update\<close>, for one particle: advance the position, then the four wrap tests in the
  order of the source, each on the coordinate as the test before it has left it.
\<close>

definition fp_move :: "real \<Rightarrow> real \<Rightarrow> real \<Rightarrow> floating_particle \<Rightarrow> floating_particle" where
  "fp_move width height deltaTime p =
     (let x1 = vx (fposition p) + vx (fvelocity p) * deltaTime;
          y1 = vy (fposition p) + vy (fvelocity p) * deltaTime;
          x2 = (if x1 < 0 then width else x1);
          x3 = (if x2 > width then 0 else x2);
          y2 = (if y1 < 0 then height else y1);
          y3 = (if y2 > height then 0 else y2)
      in p\<lparr>fposition := (fposition p)\<lparr>vx := x3, vy := y3\<rparr>\<rparr>)"

definition fp_update :: "real \<Rightarrow> real \<Rightarrow> floating_particles \<Rightarrow> floating_particles" where
  "fp_update time deltaTime s =
     s\<lparr>fp_particles := map (fp_move (fp_width s) (fp_height s) deltaTime) (fp_particles s)\<rparr>"

text \<open>
  \<open>renderConnections\<close>: the two nested loops over the indices \<open>i < j\<close> that collect
  \<open>lineData\<close>, six numbers for each pair that is close enough.
\<close>

function fp_inner_loop :: "floating_particles \<Rightarrow> nat \<Rightarrow> nat \<Rightarrow> real list \<Rightarrow> real list" where
  "fp_inner_loop s i j lineData =
     (if j < length (fp_particles s) then
        (let maxDist = fp_connectionDistance (fp_opts s);
             p1 = fp_particles s ! i;
             p2 = fp_particles s ! j;
             dist = distance (fposition p1) (fposition p2)
         in if dist < maxDist then
              (let alpha = 1 - dist / maxDist;
                   x1 = (vx (fposition p1) / fp_width s) * 2 - 1;
                   y1 = (vy (fposition p1) / fp_height s) * 2 - 1;
                   x2 = (vx (fposition p2) / fp_width s) * 2 - 1;
                   y2 = (vy (fposition p2) / fp_height s) * 2 - 1
               in fp_inner_loop s i (Suc j) (lineData @ [x1, y1, alpha, x2, y2, alpha]))
            else fp_inner_loop s i (Suc j) lineData)
      else lineData)"
  by pat_completeness auto
termination
  by (relation "measure (\<lambda>(s, i, j, lineData). length (fp_particles s) - j)") auto

declare fp_inner_loop.simps [simp del]

function fp_outer_loop :: "floating_particles \<Rightarrow> nat \<Rightarrow> real list \<Rightarrow> real list" where
  "fp_outer_loop s i lineData =
     (if i < length (fp_particles s)
      then fp_outer_loop s (Suc i) (fp_inner_loop s i (Suc i) lineData)
      else lineData)"
  by pat_completeness auto
termination
  by (relation "measure (\<lambda>(s, i, lineData). length (fp_particles s) - i)") auto

declare fp_outer_loop.simps [simp del]

definition fp_lineData :: "floating_particles \<Rightarrow> real list" where
  "fp_lineData s = fp_outer_loop s 0 []"

definition fp_renderConnections :: "floating_particles \<Rightarrow> 'a env_scheme \<Rightarrow> 'a env_scheme" where
  "fp_renderConnections s h =
     (case (fp_lineProgram s, fp_lineBuffer s) of
        (Some prog, Some buf) \<Rightarrow>
          (let h1 = emit (UseProgram prog) h;
               lineData = fp_lineData s
           in if length lineData = 0 then h1
              else emits [BindBuffer buf, BufferData lineData,
                          VertexAttribPointer ''a_position'' 2 12 0,
                          VertexAttribPointer ''a_alpha'' 1 12 8,
                          UniformColor ''u_color'' (fp_color (fp_opts s)),
                          DrawArrays LINES 0 (length lineData div 3)] h1)
      | _ \<Rightarrow> h)"

definition fp_vertex :: "floating_particles \<Rightarrow> floating_particle \<Rightarrow> real list" where
  "fp_vertex s p =
     [(vx (fposition p) / fp_width s) * 2 - 1, (vy (fposition p) / fp_height s) * 2 - 1, fsize p]"

definition fp_renderParticles :: "floating_particles \<Rightarrow> 'a env_scheme \<Rightarrow> 'a env_scheme" where
  "fp_renderParticles s h =
     (case (fp_particleProgram s, fp_particleBuffer s) of
        (Some prog, Some buf) \<Rightarrow>
          emits [UseProgram prog, BindBuffer buf,
                 BufferData (concat (map (fp_vertex s) (fp_particles s))),
                 VertexAttribPointer ''a_position'' 2 12 0,
                 VertexAttribPointer ''a_size'' 1 12 8,
                 UniformColor ''u_color'' (fp_color (fp_opts s)),
                 DrawArrays POINTS 0 (length (fp_particles s))] h
      | _ \<Rightarrow> h)"

definition fp_render :: "floating_particles \<Rightarrow> 'a env_scheme \<Rightarrow> 'a env_scheme" where
  "fp_render s h =
     (if fp_particleProgram s = None \<or> fp_particleBuffer s = None then h
      else fp_renderParticles s
             (if fp_showConnections (fp_opts s) \<and> fp_lineProgram s \<noteq> None \<and> fp_lineBuffer s \<noteq> None
              then fp_renderConnections s h else h))"

text \<open>
  \<open>resize\<close>: with a previous size that is positive in both directions the positions
  are rescaled, otherwise the particles are initialised anew.  The rescaling divides
  and then multiplies, and each of the two operations rounds to the nearest double.
\<close>

definition fp_rescale :: "real \<Rightarrow> real \<Rightarrow> real \<Rightarrow> real \<Rightarrow> floating_particle \<Rightarrow> floating_particle" where
  "fp_rescale oldWidth oldHeight width height p =
     p\<lparr>fposition := (fposition p)\<lparr>vx := binary64 (binary64 (vx (fposition p) / oldWidth) * width),
                                   vy := binary64 (binary64 (vy (fposition p) / oldHeight) * height)\<rparr>\<rparr>"

definition fp_resize :: "real \<Rightarrow> real \<Rightarrow> floating_particles \<Rightarrow> 'a env_scheme
    \<Rightarrow> floating_particles \<times> 'a env_scheme" where
  "fp_resize width height s h =
     (let oldWidth = fp_width s;
          oldHeight = fp_height s;
          s1 = s\<lparr>fp_width := width, fp_height := height\<rparr>
      in if oldWidth > 0 \<and> oldHeight > 0
         then (s1\<lparr>fp_particles := map (fp_rescale oldWidth oldHeight width height) (fp_particles s1)\<rparr>, h)
         else fp_initParticles s1 h)"

definition fp_destroy :: "floating_particles \<Rightarrow> 'a env_scheme
    \<Rightarrow> floating_particles \<times> 'a env_scheme" where
  "fp_destroy s h =
     (let (s1, h1) = (case fp_particleProgram s of
                        Some prog \<Rightarrow> (s\<lparr>fp_particleProgram := None\<rparr>, emit (DeleteProgram prog) h)
                      | None \<Rightarrow> (s, h));
          (s2, h2) = (case fp_lineProgram s1 of
                        Some prog \<Rightarrow> (s1\<lparr>fp_lineProgram := None\<rparr>, emit (DeleteProgram prog) h1)
                      | None \<Rightarrow> (s1, h1));
          (s3, h3) = (case fp_particleBuffer s2 of
                        Some buf \<Rightarrow> (s2\<lparr>fp_particleBuffer := None\<rparr>, emit (DeleteBuffer buf) h2)
                      | None \<Rightarrow> (s2, h2))
      in case fp_lineBuffer s3 of
           Some buf \<Rightarrow> (s3\<lparr>fp_lineBuffer := None\<rparr>, emit (DeleteBuffer buf) h3)
         | None \<Rightarrow> (s3, h3))"

section \<open>WaveEffect and GradientMesh\<close>

record wave_effect =
  wv_amplitude :: real
  wv_frequency :: real
  wv_speed :: real
  wv_color1 :: string
  wv_color2 :: string
  wv_program :: "nat option"
  wv_quadBuffer :: "nat option"
  wv_width :: real
  wv_height :: real

definition wv_init :: "wave_effect \<Rightarrow> 'a env_scheme \<Rightarrow> wave_effect \<times> 'a env_scheme" where
  "wv_init s h =
     (case createProgram h of (prog, h1) \<Rightarrow>
      case createQuad h1 of (quad, h2) \<Rightarrow> (s\<lparr>wv_program := prog, wv_quadBuffer := quad\<rparr>, h2))"

definition wv_render :: "wave_effect \<Rightarrow> 'a env_scheme \<Rightarrow> 'a env_scheme" where
  "wv_render s h =
     (case (wv_program s, wv_quadBuffer s) of
        (Some prog, Some quad) \<Rightarrow>
          emits [UseProgram prog, BindBuffer quad,
                 VertexAttribPointer ''a_position'' 2 16 0,
                 VertexAttribPointer ''a_texCoord'' 2 16 8,
                 Uniform1f ''u_time'' (clock h / 1000),
                 Uniform2f ''u_resolution'' (wv_width s) (wv_height s),
                 Uniform1f ''u_amplitude'' (wv_amplitude s),
                 Uniform1f ''u_frequency'' (wv_frequency s),
                 Uniform1f ''u_speed'' (wv_speed s),
                 UniformColor ''u_color1'' (wv_color1 s),
                 UniformColor ''u_color2'' (wv_color2 s),
                 DrawArrays TRIANGLES 0 6] h
      | _ \<Rightarrow> h)"

definition wv_resize :: "real \<Rightarrow> real \<Rightarrow> wave_effect \<Rightarrow> wave_effect" where
  "wv_resize width height s = s\<lparr>wv_width := width, wv_height := height\<rparr>"

definition wv_destroy :: "wave_effect \<Rightarrow> 'a env_scheme \<Rightarrow> wave_effect \<times> 'a env_scheme" where
  "wv_destroy s h =
     (let (s1, h1) = (case wv_program s of
                        Some prog \<Rightarrow> (s\<lparr>wv_program := None\<rparr>, emit (DeleteProgram prog) h)
                      | None \<Rightarrow> (s, h))
      in case wv_quadBuffer s1 of
           Some quad \<Rightarrow> (s1\<lparr>wv_quadBuffer := None\<rparr>, emit (DeleteBuffer quad) h1)
         | None \<Rightarrow> (s1, h1))"

record gradient_mesh =
  gm_colors :: "string list"
  gm_speed :: real
  gm_complexity :: real
  gm_program :: "nat option"
  gm_quadBuffer :: "nat option"
  gm_width :: real
  gm_height :: real

definition gm_init :: "gradient_mesh \<Rightarrow> 'a env_scheme \<Rightarrow> gradient_mesh \<times> 'a env_scheme" where
  "gm_init s h =
     (case createProgram h of (prog, h1) \<Rightarrow>
      case createQuad h1 of (quad, h2) \<Rightarrow> (s\<lparr>gm_program := prog, gm_quadBuffer := quad\<rparr>, h2))"

text \<open>
  The colour list of a render: the first four colours, the last one repeated while
  there are fewer.  With no colour at all the repeated element is \<open>undefined\<close>.
\<close>

function gm_pad :: "string list \<Rightarrow> string list" where
  "gm_pad colors =
     (if length colors < 4
      then gm_pad (colors @ [if colors = [] then ''undefined'' else last colors])
      else colors)"
  by pat_completeness auto
termination
  by (relation "measure (\<lambda>colors. 4 - length colors)") auto

declare gm_pad.simps [simp del]

definition gm_render :: "gradient_mesh \<Rightarrow> 'a env_scheme \<Rightarrow> 'a env_scheme" where
  "gm_render s h =
     (case (gm_program s, gm_quadBuffer s) of
        (Some prog, Some quad) \<Rightarrow>
          (let colors = gm_pad (take 4 (gm_colors s)) in
           emits [UseProgram prog, BindBuffer quad,
                  VertexAttribPointer ''a_position'' 2 16 0,
                  VertexAttribPointer ''a_texCoord'' 2 16 8,
                  Uniform1f ''u_time'' (clock h / 1000),
                  Uniform2f ''u_resolution'' (gm_width s) (gm_height s),
                  Uniform1f ''u_speed'' (gm_speed s),
                  Uniform1f ''u_complexity'' (gm_complexity s),
                  UniformColor ''u_color1'' (colors ! 0),
                  UniformColor ''u_color2'' (colors ! 1),
                  UniformColor ''u_color3'' (colors ! 2),
                  UniformColor ''u_color4'' (colors ! 3),
                  DrawArrays TRIANGLES 0 6] h)
      | _ \<Rightarrow> h)"

definition gm_resize :: "real \<Rightarrow> real \<Rightarrow> gradient_mesh \<Rightarrow> gradient_mesh" where
  "gm_resize width height s = s\<lparr>gm_width := width, gm_height := height\<rparr>"

definition gm_destroy :: "gradient_mesh \<Rightarrow> 'a env_scheme \<Rightarrow> gradient_mesh \<times> 'a env_scheme" where
  "gm_destroy s h =
     (let (s1, h1) = (case gm_program s of
                        Some prog \<Rightarrow> (s\<lparr>gm_program := None\<rparr>, emit (DeleteProgram prog) h)
                      | None \<Rightarrow> (s, h))
      in case gm_quadBuffer s1 of
           Some quad \<Rightarrow> (s1\<lparr>gm_quadBuffer := None\<rparr>, emit (DeleteBuffer quad) h1)
         | None \<Rightarrow> (s1, h1))"

section \<open>The engine\<close>

text \<open>
  An effect is an object that the caller and the engine share: the engine keeps
  references, and \<open>indexOf\<close> compares references.  The effect objects therefore live
  in a store of the host, indexed by reference, and the engine's list holds
  references.  The host also holds the \<open>resize\<close> listeners registered on the window
  (each listener is a closure, named by the number it got when it was created), the
  frame callbacks that are pending, the document that selectors are looked up in,
  the canvas that \<open>document.createElement\<close> returns, and the reading of \<open>Date.now()\<close>.
  The model has one engine; its canvas is a value of the engine record, with the
  backing size stored as assigned.
\<close>

datatype effect =
    PS particle_system
  | FP floating_particles
  | Wave wave_effect
  | Gradient gradient_mesh

record canvas_element =
  canvas_width :: real
  canvas_height :: real
  style_width :: "real option"
  style_height :: "real option"
  clientWidth :: real
  clientHeight :: real

datatype element = CanvasElement canvas_element | OtherElement

record host = env +
  objects :: "nat \<Rightarrow> effect option"
  resize_listeners :: "nat list"
  next_closure :: nat
  frame_callbacks :: "nat list"
  next_frame :: nat
  date_now :: real
  document :: "string \<Rightarrow> element option"
  new_canvas :: canvas_element
  devicePixelRatio :: "real option"
  webgl_supported :: bool

record gl_attrs =
  attr_alpha :: bool
  attr_antialias :: bool
  attr_premultipliedAlpha :: bool

record interaction_manager =
  im_position :: vec2
  im_normalized :: vec2
  im_velocity :: vec2
  im_isDown :: bool
  im_lastPosition :: vec2
  im_lastTime :: real

text \<open>
  Of the interaction manager the engine only constructs and releases: the pointer
  state it starts with is modelled, the listeners it puts on the canvas are not.
\<close>

definition InteractionManager :: "host \<Rightarrow> interaction_manager" where
  "InteractionManager h =
     \<lparr>im_position = Vec2 0 0, im_normalized = Vec2 0 0, im_velocity = Vec2 0 0, im_isDown = False,
      im_lastPosition = Vec2 0 0, im_lastTime = date_now h\<rparr>"

datatype canvas_arg = Selector string | Element canvas_element | NoCanvas

record vizfx_options =
  opt_canvas :: canvas_arg
  opt_width :: "real option"
  opt_height :: "real option"
  opt_dpr :: "real option"
  opt_alpha :: "bool option"
  opt_antialias :: "bool option"

record vizfx =
  canvas :: canvas_element
  gl :: "gl_attrs option"
  effects :: "nat list"
  animationId :: "nat option"
  startTime :: real
  lastTime :: real
  isRunning :: bool
  interactionManager :: "interaction_manager option"
  dpr :: real

text \<open>What a method hands back: the receiver (\<open>return this\<close>) or nothing (\<open>void\<close>).\<close>

datatype ret = This | Undefined

subsection \<open>Calling the methods of an effect through its reference\<close>

definition effect_init :: "nat \<Rightarrow> host \<Rightarrow> host" where
  "effect_init r h =
     (case objects h r of
        None \<Rightarrow> h
      | Some (PS s) \<Rightarrow> (case ps_init s h of (s', h') \<Rightarrow> h'\<lparr>objects := (objects h')(r \<mapsto> PS s')\<rparr>)
      | Some (FP s) \<Rightarrow> (case fp_init s h of (s', h') \<Rightarrow> h'\<lparr>objects := (objects h')(r \<mapsto> FP s')\<rparr>)
      | Some (Wave s) \<Rightarrow> (case wv_init s h of (s', h') \<Rightarrow> h'\<lparr>objects := (objects h')(r \<mapsto> Wave s')\<rparr>)
      | Some (Gradient s) \<Rightarrow>
          (case gm_init s h of (s', h') \<Rightarrow> h'\<lparr>objects := (objects h')(r \<mapsto> Gradient s')\<rparr>))"

definition effect_update :: "nat \<Rightarrow> real \<Rightarrow> real \<Rightarrow> host \<Rightarrow> host" where
  "effect_update r time deltaTime h =
     (case objects h r of
        None \<Rightarrow> h
      | Some (PS s) \<Rightarrow>
          (case ps_update time deltaTime s h of (s', h') \<Rightarrow> h'\<lparr>objects := (objects h')(r \<mapsto> PS s')\<rparr>)
      | Some (FP s) \<Rightarrow> h\<lparr>objects := (objects h)(r \<mapsto> FP (fp_update time deltaTime s))\<rparr>
      | Some (Wave s) \<Rightarrow> h
      | Some (Gradient s) \<Rightarrow> h)"

definition effect_render :: "nat \<Rightarrow> host \<Rightarrow> host" where
  "effect_render r h =
     (case objects h r of
        None \<Rightarrow> h
      | Some (PS s) \<Rightarrow> ps_render s h
      | Some (FP s) \<Rightarrow> fp_render s h
      | Some (Wave s) \<Rightarrow> wv_render s h
      | Some (Gradient s) \<Rightarrow> gm_render s h)"

definition effect_resize :: "real \<Rightarrow> real \<Rightarrow> nat \<Rightarrow> host \<Rightarrow> host" where
  "effect_resize width height r h =
     (case objects h r of
        None \<Rightarrow> h
      | Some (PS s) \<Rightarrow> h\<lparr>objects := (objects h)(r \<mapsto> PS (ps_resize width height s))\<rparr>
      | Some (FP s) \<Rightarrow>
          (case fp_resize width height s h of (s', h') \<Rightarrow> h'\<lparr>objects := (objects h')(r \<mapsto> FP s')\<rparr>)
      | Some (Wave s) \<Rightarrow> h\<lparr>objects := (objects h)(r \<mapsto> Wave (wv_resize width height s))\<rparr>
      | Some (Gradient s) \<Rightarrow> h\<lparr>objects := (objects h)(r \<mapsto> Gradient (gm_resize width height s))\<rparr>)"

definition effect_destroy :: "nat \<Rightarrow> host \<Rightarrow> host" where
  "effect_destroy r h =
     (case objects h r of
        None \<Rightarrow> h
      | Some (PS s) \<Rightarrow> (case ps_destroy s h of (s', h') \<Rightarrow> h'\<lparr>objects := (objects h')(r \<mapsto> PS s')\<rparr>)
      | Some (FP s) \<Rightarrow> (case fp_destroy s h of (s', h') \<Rightarrow> h'\<lparr>objects := (objects h')(r \<mapsto> FP s')\<rparr>)
      | Some (Wave s) \<Rightarrow> (case wv_destroy s h of (s', h') \<Rightarrow> h'\<lparr>objects := (objects h')(r \<mapsto> Wave s')\<rparr>)
      | Some (Gradient s) \<Rightarrow>
          (case gm_destroy s h of (s', h') \<Rightarrow> h'\<lparr>objects := (objects h')(r \<mapsto> Gradient s')\<rparr>))"

subsection \<open>Listeners and frame callbacks\<close>

definition new_closure :: "host \<Rightarrow> nat \<times> host" where
  "new_closure h = (next_closure h, h\<lparr>next_closure := Suc (next_closure h)\<rparr>)"

definition addEventListener :: "nat \<Rightarrow> host \<Rightarrow> host" where
  "addEventListener c h =
     (if c \<in> set (resize_listeners h) then h
      else h\<lparr>resize_listeners := resize_listeners h @ [c]\<rparr>)"

definition removeEventListener :: "nat \<Rightarrow> host \<Rightarrow> host" where
  "removeEventListener c h = h\<lparr>resize_listeners := removeAll c (resize_listeners h)\<rparr>"

definition requestAnimationFrame :: "host \<Rightarrow> nat \<times> host" where
  "requestAnimationFrame h =
     (next_frame h,
      h\<lparr>frame_callbacks := frame_callbacks h @ [next_frame h], next_frame := Suc (next_frame h)\<rparr>)"

definition cancelAnimationFrame :: "nat \<Rightarrow> host \<Rightarrow> host" where
  "cancelAnimationFrame i h = h\<lparr>frame_callbacks := removeAll i (frame_callbacks h)\<rparr>"

subsection \<open>The methods of the engine\<close>

definition resize :: "real option \<Rightarrow> real option \<Rightarrow> vizfx \<Rightarrow> host \<Rightarrow> ret \<times> vizfx \<times> host" where
  "resize width height e h =
     (if gl e = None then (This, e, h)
      else
        (let w = (case width of Some a \<Rightarrow> a | None \<Rightarrow> clientWidth (canvas e));
             hh = (case height of Some a \<Rightarrow> a | None \<Rightarrow> clientHeight (canvas e));
             c = (canvas e)\<lparr>canvas_width := w * dpr e, canvas_height := hh * dpr e,
                            style_width := Some w, style_height := Some hh\<rparr>;
             h1 = emit (Viewport 0 0 (canvas_width c) (canvas_height c)) h
         in (This, e\<lparr>canvas := c\<rparr>, fold (effect_resize w hh) (effects e) h1)))"

definition addEffect :: "nat \<Rightarrow> vizfx \<Rightarrow> host \<Rightarrow> ret \<times> vizfx \<times> host" where
  "addEffect r e h =
     (if gl e = None then (This, e, h)
      else
        (let h1 = effect_init r h;
             e1 = e\<lparr>effects := effects e @ [r]\<rparr>
         in (This, e1,
             effect_resize (canvas_width (canvas e1) / dpr e1) (canvas_height (canvas e1) / dpr e1) r h1)))"

definition removeEffect :: "nat \<Rightarrow> vizfx \<Rightarrow> host \<Rightarrow> ret \<times> vizfx \<times> host" where
  "removeEffect r e h =
     (if gl e = None then (This, e, h)
      else if r \<in> set (effects e)
      then (This, e\<lparr>effects := remove1 r (effects e)\<rparr>, effect_destroy r h)
      else (This, e, h))"

text \<open>One round of the loop body of \<open>animate\<close>, for the effect \<open>r\<close>.\<close>

definition frame_effect :: "real \<Rightarrow> real \<Rightarrow> nat \<Rightarrow> host \<Rightarrow> host" where
  "frame_effect time deltaTime r h =
     (let h1 = effect_update r time deltaTime (emit (EffectUpdate r time deltaTime) h)
      in effect_render r (emit (EffectRender r) h1))"

definition animate :: "vizfx \<Rightarrow> host \<Rightarrow> vizfx \<times> host" where
  "animate e h =
     (if \<not> isRunning e \<or> gl e = None then (e, h)
      else
        (case requestAnimationFrame h of (i, h1) \<Rightarrow>
           (let e1 = e\<lparr>animationId := Some i\<rparr>;
                now = clock h1;
                time = (now - startTime e1) / 1000;
                deltaTime = (now - lastTime e1) / 1000;
                e2 = e1\<lparr>lastTime := now\<rparr>;
                h2 = emit Clear h1
            in (e2, fold (frame_effect time deltaTime) (effects e2) h2))))"

definition start :: "vizfx \<Rightarrow> host \<Rightarrow> ret \<times> vizfx \<times> host" where
  "start e h =
     (if isRunning e then (This, e, h)
      else
        (let e1 = e\<lparr>isRunning := True, startTime := clock h\<rparr>;
             e2 = e1\<lparr>lastTime := startTime e1\<rparr>
         in case animate e2 h of (e3, h3) \<Rightarrow> (This, e3, h3)))"

definition stop :: "vizfx \<Rightarrow> host \<Rightarrow> ret \<times> vizfx \<times> host" where
  "stop e h =
     (if \<not> isRunning e then (This, e, h)
      else
        (let e1 = e\<lparr>isRunning := False\<rparr>
         in case animationId e1 of
              Some i \<Rightarrow> (This, e1\<lparr>animationId := None\<rparr>, cancelAnimationFrame i h)
            | None \<Rightarrow> (This, e1, h)))"

definition destroy :: "vizfx \<Rightarrow> host \<Rightarrow> ret \<times> vizfx \<times> host" where
  "destroy e h =
     (case stop e h of (_, e1, h1) \<Rightarrow>
        (let h2 = (if gl e1 \<noteq> None then fold effect_destroy (effects e1) h1 else h1);
             e2 = e1\<lparr>effects := []\<rparr>;
             e3 = (case interactionManager e2 of
                     Some im \<Rightarrow> e2\<lparr>interactionManager := None\<rparr>
                   | None \<Rightarrow> e2)
         in case new_closure h2 of (c, h3) \<Rightarrow> (Undefined, e3, removeEventListener c h3)))"

text \<open>
  The constructor.  It fails when a selector does not name a canvas and when the
  host has no WebGL context to give; otherwise it sizes the canvas and registers a
  new closure as \<open>resize\<close> listener on the window.
\<close>

definition VizFX :: "vizfx_options \<Rightarrow> host \<Rightarrow> error + vizfx \<times> host" where
  "VizFX options h =
     (case (case opt_canvas options of
              Selector sel \<Rightarrow>
                (case document h sel of
                   Some (CanvasElement c) \<Rightarrow> Inr c
                 | _ \<Rightarrow> Inl (CanvasNotFound sel))
            | Element c \<Rightarrow> Inr c
            | NoCanvas \<Rightarrow> Inr (new_canvas h)) of
        Inl err \<Rightarrow> Inl err
      | Inr c \<Rightarrow>
          (let d = (case opt_dpr options of
                      Some a \<Rightarrow> a
                    | None \<Rightarrow> (case devicePixelRatio h of Some a \<Rightarrow> a | None \<Rightarrow> 1))
           in if \<not> webgl_supported h then Inl WebGLNotSupported
              else
                (let g = \<lparr>attr_alpha = (case opt_alpha options of Some a \<Rightarrow> a | None \<Rightarrow> True),
                          attr_antialias = (case opt_antialias options of Some a \<Rightarrow> a | None \<Rightarrow> True),
                          attr_premultipliedAlpha = False\<rparr>;
                     h1 = emits [ClearColor 0 0 0 0, EnableBlend, BlendFunc] h;
                     e = \<lparr>canvas = c, gl = Some g, effects = [], animationId = None,
                          startTime = 0, lastTime = 0, isRunning = False,
                          interactionManager = Some (InteractionManager h1), dpr = d\<rparr>
                 in case resize (opt_width options) (opt_height options) e h1 of
                      (_, e2, h2) \<Rightarrow>
                        (case new_closure h2 of (cl, h3) \<Rightarrow> Inr (e2, addEventListener cl h3)))))"

subsection \<open>What the caller and the host can do to a constructed engine\<close>

text \<open>
  The caller invokes the public methods; the host fires a pending frame callback
  (which runs \<open>animate\<close>), advances the clock, and dispatches a \<open>resize\<close> event of
  the window to the registered listeners, each of which calls \<open>resize()\<close> without
  arguments.
\<close>

datatype action =
    AddEffect nat
  | RemoveEffect nat
  | Start
  | Stop
  | Resize "real option" "real option"
  | Destroy
  | Frame nat
  | Tick real
  | WindowResize

fun perform :: "action \<Rightarrow> vizfx \<times> host \<Rightarrow> vizfx \<times> host" where
  "perform (AddEffect r) (e, h) = snd (addEffect r e h)"
| "perform (RemoveEffect r) (e, h) = snd (removeEffect r e h)"
| "perform Start (e, h) = snd (start e h)"
| "perform Stop (e, h) = snd (stop e h)"
| "perform (Resize width height) (e, h) = snd (resize width height e h)"
| "perform Destroy (e, h) = snd (destroy e h)"
| "perform (Frame i) (e, h) =
     (if i \<in> set (frame_callbacks h)
      then animate e (h\<lparr>frame_callbacks := removeAll i (frame_callbacks h)\<rparr>)
      else (e, h))"
| "perform (Tick t) (e, h) = (e, h\<lparr>clock := t\<rparr>)"
| "perform WindowResize (e, h) =
     fold (\<lambda>c s. snd (resize None None (fst s) (snd s))) (resize_listeners h) (e, h)"

definition run :: "action list \<Rightarrow> vizfx \<times> host \<Rightarrow> vizfx \<times> host" where
  "run acts s = fold perform acts s"

section \<open>Calls on a particle system, and scenarios\<close>

text \<open>The public methods of a particle system, as a caller or the engine may invoke them.\<close>

datatype ps_call =
    PsInit
  | PsUpdate real real
  | PsRender
  | PsResize real real
  | PsDestroy
  | PsSetEmitterPosition real real
  | PsSetColor string
  | PsSetCount real

fun ps_perform :: "ps_call \<Rightarrow> particle_system \<times> 'a env_scheme
    \<Rightarrow> error option \<times> particle_system \<times> 'a env_scheme" where
  "ps_perform PsInit (s, h) = (None, ps_init s h)"
| "ps_perform (PsUpdate time deltaTime) (s, h) = (None, ps_update time deltaTime s h)"
| "ps_perform PsRender (s, h) = (None, s, ps_render s h)"
| "ps_perform (PsResize width height) (s, h) = (None, ps_resize width height s, h)"
| "ps_perform PsDestroy (s, h) = (None, ps_destroy s h)"
| "ps_perform (PsSetEmitterPosition a b) (s, h) = (None, setEmitterPosition a b s, h)"
| "ps_perform (PsSetColor c) (s, h) = (None, setColor c s, h)"
| "ps_perform (PsSetCount n) (s, h) = setCount n s h"

text \<open>
  A sequence of calls, as a straight-line program makes them: a call that throws
  ends the sequence, with the error and the state that the call has left.
\<close>

fun ps_run :: "ps_call list \<Rightarrow> particle_system \<times> 'a env_scheme
    \<Rightarrow> error option \<times> particle_system \<times> 'a env_scheme" where
  "ps_run [] st = (None, st)"
| "ps_run (c # calls) st =
     (case ps_perform c st of
        (None, st') \<Rightarrow> ps_run calls st'
      | (Some err, st') \<Rightarrow> (Some err, st'))"

text \<open>
  The count that the calls made so far ask for: the argument of the latest
  \<open>setCount\<close>, and the count of the constructor when there was none.
\<close>

fun wanted_count :: "real \<Rightarrow> ps_call list \<Rightarrow> real" where
  "wanted_count n [] = n"
| "wanted_count n (PsSetCount m # calls) = wanted_count m calls"
| "wanted_count n (_ # calls) = wanted_count n calls"

text \<open>Every \<open>setCount\<close> among the calls has a non-negative integer for its argument.\<close>

fun whole_counts :: "ps_call list \<Rightarrow> bool" where
  "whole_counts [] = True"
| "whole_counts (PsSetCount m # calls) = (is_array_length m \<and> whole_counts calls)"
| "whole_counts (_ # calls) = whole_counts calls"

text \<open>A host for the scenarios: every call of \<open>Math.random()\<close> returns \<open>0\<close>.\<close>

definition quiet_env :: env where
  "quiet_env = \<lparr>log = [], next_handle = 0, link_ok = True, randoms = (\<lambda>n. 0), clock = 0\<rparr>"

text \<open>
  The scenario of a system with three particles that live for one second, and a
  system whose particles are configured to live for zero seconds; both initialised.
\<close>

definition three_options :: ps_options where
  "three_options = ps_default_options\<lparr>ps_count := 3, ps_lifetime := 1\<rparr>"

definition three_system :: "particle_system \<times> env" where
  "three_system = ps_init (ParticleSystem three_options) quiet_env"

definition zero_life_options :: ps_options where
  "zero_life_options = ps_default_options\<lparr>ps_count := 1, ps_lifetime := 0\<rparr>"

definition zero_life_system :: "particle_system \<times> env" where
  "zero_life_system = ps_init (ParticleSystem zero_life_options) quiet_env"

text \<open>
  What \<open>update\<close> is to make of one particle: a particle that some call of
  \<open>createParticle\<close> returns when the decremented life is not positive, and otherwise
  the particle with the decremented life, advanced by one step.
\<close>

definition ps_updated :: "ps_options \<Rightarrow> real \<Rightarrow> particle \<Rightarrow> particle \<Rightarrow> bool" where
  "ps_updated options deltaTime p p' \<longleftrightarrow>
     (if life p - deltaTime \<le> 0
      then (\<exists>g :: env. p' = fst (createParticle options g))
      else p' = ps_step options deltaTime (p\<lparr>life := life p - deltaTime\<rparr>))"

section \<open>The proximity graph, and scenarios for floating particles\<close>

text \<open>
  The proximity graph as the specification words it: for every pair of indices
  \<open>i < j\<close> whose particles are closer than \<open>connectionDistance\<close>, an edge with the
  weight \<open>1 - distance / connectionDistance\<close>; in the order of the indices.  An edge
  is drawn as a segment of six numbers: the two end points in clip space, each
  followed by the weight.
\<close>

definition fp_edge_row :: "floating_particles \<Rightarrow> nat \<Rightarrow> nat \<Rightarrow> (nat \<times> nat \<times> real) list" where
  "fp_edge_row s i j0 =
     concat (map (\<lambda>j.
        if distance (fposition (fp_particles s ! i)) (fposition (fp_particles s ! j))
             < fp_connectionDistance (fp_opts s)
        then [(i, j, 1 - distance (fposition (fp_particles s ! i)) (fposition (fp_particles s ! j))
                          / fp_connectionDistance (fp_opts s))]
        else []) [j0 ..< length (fp_particles s)])"

definition fp_connections :: "floating_particles \<Rightarrow> (nat \<times> nat \<times> real) list" where
  "fp_connections s = concat (map (\<lambda>i. fp_edge_row s i (Suc i)) [0 ..< length (fp_particles s)])"

definition fp_segment :: "floating_particles \<Rightarrow> nat \<times> nat \<times> real \<Rightarrow> real list" where
  "fp_segment s e =
     (case e of (i, j, alpha) \<Rightarrow>
        [(vx (fposition (fp_particles s ! i)) / fp_width s) * 2 - 1,
         (vy (fposition (fp_particles s ! i)) / fp_height s) * 2 - 1,
         alpha,
         (vx (fposition (fp_particles s ! j)) / fp_width s) * 2 - 1,
         (vy (fposition (fp_particles s ! j)) / fp_height s) * 2 - 1,
         alpha])"

text \<open>
  Two particles at \<open>(0, 50)\<close> and \<open>(5, 50)\<close> on a surface of 100 by 100, with the
  programs and buffers that \<open>init\<close> creates.
\<close>

definition two_field :: floating_particles where
  "two_field = (FloatingParticles (fp_default_options\<lparr>fp_count := 2\<rparr>))
     \<lparr>fp_particles := [\<lparr>fposition = Vec2 0 50, fvelocity = Vec2 0 0, fsize = 2\<rparr>,
                       \<lparr>fposition = Vec2 5 50, fvelocity = Vec2 0 0, fsize = 2\<rparr>],
      fp_particleProgram := Some 0, fp_lineProgram := Some 1,
      fp_particleBuffer := Some 2, fp_lineBuffer := Some 3,
      fp_width := 100, fp_height := 100\<rparr>"

text \<open>
  One particle near the left edge of a surface of 100 by 50, moving to the left at
  20 pixels a second.
\<close>

definition edge_field :: floating_particles where
  "edge_field = (FloatingParticles (fp_default_options\<lparr>fp_count := 1\<rparr>))
     \<lparr>fp_particles := [\<lparr>fposition = Vec2 1 10, fvelocity = Vec2 (-20) 0, fsize = 2\<rparr>],
      fp_width := 100, fp_height := 50\<rparr>"

section \<open>Reading the log\<close>

text \<open>The entries of the log that are invocations of effect methods by the frame loop.\<close>

fun is_call :: "event \<Rightarrow> bool" where
  "is_call (EffectUpdate r time deltaTime) = True"
| "is_call (EffectRender r) = True"
| "is_call _ = False"

text \<open>
  What one frame adds to the log for the effect \<open>r\<close>: the invocation of its \<open>update\<close>,
  the invocation of its \<open>render\<close>, and the WebGL calls \<open>gs\<close> that this render makes.
\<close>

definition visit :: "real \<Rightarrow> real \<Rightarrow> nat \<times> event list \<Rightarrow> event list" where
  "visit time deltaTime rg = EffectUpdate (fst rg) time deltaTime # EffectRender (fst rg) # snd rg"

section \<open>Auxiliary notions\<close>

text \<open>A particle system whose array is as long as the count that it records.\<close>

definition counted :: "particle_system \<Rightarrow> bool" where
  "counted s \<longleftrightarrow> real (length (ps_particles s)) = ps_count (ps_opts s)"

text \<open>
  An effect reaches the host only through the log, the handle counter and the
  random numbers: \<open>env_kept h h'\<close> says that \<open>h'\<close> is \<open>h\<close> up to these three fields.
\<close>

definition env_kept :: "'a env_scheme \<Rightarrow> 'a env_scheme \<Rightarrow> bool" where
  "env_kept h h' \<longleftrightarrow> (\<exists>l n rs. h' = h\<lparr>log := l, next_handle := n, randoms := rs\<rparr>)"

text \<open>The same for a whole host, where the store of effect objects may change as well.\<close>

definition host_kept :: "host \<Rightarrow> host \<Rightarrow> bool" where
  "host_kept h h' \<longleftrightarrow>
     (\<exists>l n rs ob. h' = h\<lparr>log := l, next_handle := n, randoms := rs, objects := ob\<rparr>)"

text \<open>
  A host is well formed when the numbers of the registered listeners and of the
  pending frame callbacks have been handed out already.
\<close>

definition host_ok :: "host \<Rightarrow> bool" where
  "host_ok h \<longleftrightarrow>
     (\<forall>c \<in> set (resize_listeners h). c < next_closure h) \<and>
     (\<forall>i \<in> set (frame_callbacks h). i < next_frame h)"

text \<open>
  An effect that already has the logical size \<open>w\<close> by \<open>hh\<close> (and, for a particle
  system, an emitter away from the origin, so that a resize does not move it).
\<close>

fun sized :: "real \<Rightarrow> real \<Rightarrow> effect \<Rightarrow> bool" where
  "sized w hh (PS s) \<longleftrightarrow>
     ps_width s = w \<and> ps_height s = hh \<and>
     \<not> (vx (ps_emitterPosition (ps_opts s)) = 0 \<and> vy (ps_emitterPosition (ps_opts s)) = 0)"
| "sized w hh (FP s) \<longleftrightarrow> fp_width s = w \<and> fp_height s = hh"
| "sized w hh (Wave s) \<longleftrightarrow> wv_width s = w \<and> wv_height s = hh"
| "sized w hh (Gradient s) \<longleftrightarrow> gm_width s = w \<and> gm_height s = hh"

definition settled :: "real \<Rightarrow> real \<Rightarrow> host \<Rightarrow> nat \<Rightarrow> bool" where
  "settled w hh h r \<longleftrightarrow> (case objects h r of None \<Rightarrow> True | Some eff \<Rightarrow> sized w hh eff)"

text \<open>
  What a resize to the size \<open>w\<close> by \<open>hh\<close> makes of an effect that has this size
  already: the positions of floating particles go through the rescaling once more,
  and nothing else changes.
\<close>

fun rescaled :: "real \<Rightarrow> real \<Rightarrow> effect \<Rightarrow> effect" where
  "rescaled w hh (FP s) = FP (s\<lparr>fp_particles := map (fp_rescale w hh w hh) (fp_particles s)\<rparr>)"
| "rescaled w hh eff = eff"

text \<open>
  The numbers from \<open>2 powi (-1022)\<close> to \<open>2 powi 1023\<close> in magnitude: a result in this
  range is rounded to 53 significant bits, without underflow and without overflow.
\<close>

definition normal_range :: "real \<Rightarrow> bool" where
  "normal_range a \<longleftrightarrow> 2 powi (- 1022) \<le> \<bar>a\<bar> \<and> \<bar>a\<bar> \<le> 2 powi 1023"

text \<open>The positions of the particles of an effect object, in the order of its array.\<close>

fun positions_of :: "effect option \<Rightarrow> vec2 list" where
  "positions_of (Some (PS s)) = map position (ps_particles s)"
| "positions_of (Some (FP s)) = map fposition (fp_particles s)"
| "positions_of _ = []"

text \<open>The frame loop runs and schedules at most the callback it has recorded.\<close>

definition scheduled :: "vizfx \<times> host \<Rightarrow> bool" where
  "scheduled st \<longleftrightarrow>
     frame_callbacks (snd st) = [] \<or>
     (isRunning (fst st) \<and> (\<exists>i. animationId (fst st) = Some i \<and> frame_callbacks (snd st) = [i]))"

section \<open>Scenarios for the engine\<close>

text \<open>
  A host with a canvas of 800 by 600 logical pixels to hand out, a device pixel
  ratio of one, no listener and no frame callback yet, and two effect objects: a
  wave effect under the reference 0 and a field of one floating particle under the
  reference 1.  The \<open>n\<close>-th call of \<open>Math.random()\<close> returns \<open>1 / (n + 2)\<close>.
\<close>

definition demo_canvas :: canvas_element where
  "demo_canvas = \<lparr>canvas_width = 300, canvas_height = 150, style_width = None, style_height = None,
                   clientWidth = 800, clientHeight = 600\<rparr>"

definition demo_wave :: wave_effect where
  "demo_wave = \<lparr>wv_amplitude = 0.1, wv_frequency = 3.0, wv_speed = 1.0, wv_color1 = ''#6366f1'',
                 wv_color2 = ''#8b5cf6'', wv_program = None, wv_quadBuffer = None,
                 wv_width = 0, wv_height = 0\<rparr>"

definition demo_host :: host where
  "demo_host =
     \<lparr>log = [], next_handle = 0, link_ok = True, randoms = (\<lambda>n. 1 / (real n + 2)), clock = 0,
      objects = [0 \<mapsto> Wave demo_wave,
                 1 \<mapsto> FP (FloatingParticles (fp_default_options\<lparr>fp_count := 1\<rparr>))],
      resize_listeners = [], next_closure = 0, frame_callbacks = [], next_frame = 0, date_now = 0,
      document = (\<lambda>sel. None), new_canvas = demo_canvas, devicePixelRatio = Some 1,
      webgl_supported = True\<rparr>"

definition demo_options :: vizfx_options where
  "demo_options = \<lparr>opt_canvas = NoCanvas, opt_width = None, opt_height = None, opt_dpr = None,
                    opt_alpha = None, opt_antialias = None\<rparr>"

text \<open>
  The engine as constructed on this host, and the same engine with both effects,
  started, 16 milliseconds later.
\<close>

definition demo_constructed :: "vizfx \<times> host" where
  "demo_constructed = projr (VizFX demo_options demo_host)"

definition demo_running :: "vizfx \<times> host" where
  "demo_running = run [AddEffect 0, AddEffect 1, Start, Tick 16] demo_constructed"

text \<open>
  An engine whose only effect is a field of one floating particle at \<open>(100, 75)\<close> on a
  surface of 800 by 600.
\<close>

definition one_field :: floating_particles where
  "one_field = (FloatingParticles (fp_default_options\<lparr>fp_count := 1\<rparr>))
     \<lparr>fp_particles := [\<lparr>fposition = Vec2 100 75, fvelocity = Vec2 1 1, fsize = 2\<rparr>],
      fp_particleProgram := Some 0, fp_lineProgram := Some 1,
      fp_particleBuffer := Some 2, fp_lineBuffer := Some 3,
      fp_width := 800, fp_height := 600\<rparr>"

definition field_host :: host where
  "field_host = demo_host\<lparr>next_handle := 4, objects := [1 \<mapsto> FP one_field]\<rparr>"

definition field_engine :: vizfx where
  "field_engine =
     \<lparr>canvas = demo_canvas\<lparr>canvas_width := 800, canvas_height := 600,
                           style_width := Some 800, style_height := Some 600\<rparr>,
      gl = Some \<lparr>attr_alpha = True, attr_antialias = True, attr_premultipliedAlpha = False\<rparr>,
      effects = [1], animationId = None, startTime = 0, lastTime = 0, isRunning = False,
      interactionManager = Some (InteractionManager demo_host), dpr = 1\<rparr>"

text \<open>
  The same engine over a field of 1 by 1 whose particle is at
  \<open>(5882252574524730 / 2 ^ 58, 0)\<close>; the abscissa is the double next above \<open>1 / 49\<close>.
\<close>

definition drift_field :: floating_particles where
  "drift_field = one_field
     \<lparr>fp_particles := [\<lparr>fposition = Vec2 (5882252574524730 / 2 ^ 58) 0, fvelocity = Vec2 1 1, fsize = 2\<rparr>],
      fp_width := 1, fp_height := 1\<rparr>"

definition drift_host :: host where
  "drift_host = field_host\<lparr>objects := [1 \<mapsto> FP drift_field]\<rparr>"

section \<open>Particle systems: emission and recycling\<close>

lemma createParticle_life: "life (fst (createParticle options h)) = ps_lifetime options"
  by (simp add: createParticle_def random_range_def math_random_def split: prod.splits)

lemma createParticle_env:
  "\<exists>g :: env. fst (createParticle options (h :: 'a env_scheme)) = fst (createParticle options g)"
  apply (rule exI [of _ "\<lparr>log = [], next_handle = 0, link_ok = True, randoms = randoms h, clock = 0\<rparr>"])
  apply (simp add: createParticle_def random_range_def math_random_def split: prod.splits)
  done

lemma ps_updated_dead_life:
  "ps_updated options dt p p' \<Longrightarrow> life p - dt \<le> 0 \<Longrightarrow> life p' = ps_lifetime options"
  by (auto simp: ps_updated_def createParticle_life)

lemma ps_step_fields:
  "life (ps_step options dt p) = life p"
  "maxLife (ps_step options dt p) = maxLife p"
  "psize (ps_step options dt p) = psize p"
  "velocity (ps_step options dt p) =
     vec2_add (velocity p) (Vec2 (vx (ps_gravity options) * dt) (vy (ps_gravity options) * dt))"
  "position (ps_step options dt p) =
     vec2_add (position p) (Vec2 (vx (velocity (ps_step options dt p)) * dt)
                                 (vy (velocity (ps_step options dt p)) * dt))"
  by (simp_all add: ps_step_def Let_def)

lemma ps_update_loop_length:
  "length (fst (ps_update_loop options dt i ps h)) = length ps"
proof (induction options dt i ps h rule: ps_update_loop.induct)
  case (1 options dt i ps h)
  show ?case
    apply (subst ps_update_loop.simps)
    using 1 by (auto simp: Let_def split: prod.splits)
qed

lemma ps_update_loop_nth:
  "k < length ps \<Longrightarrow>
   (k < i \<longrightarrow> fst (ps_update_loop options dt i ps h) ! k = ps ! k) \<and>
   (i \<le> k \<longrightarrow> ps_updated options dt (ps ! k) (fst (ps_update_loop options dt i ps h) ! k))"
proof (induction options dt i ps h arbitrary: k rule: ps_update_loop.induct)
  case (1 options dt i ps h)
  show ?case
  proof (cases "i < length ps")
    case False
    with 1(3) show ?thesis by (subst ps_update_loop.simps, subst (2) ps_update_loop.simps) simp
  next
    case True
    let ?p = "(ps ! i)\<lparr>life := life (ps ! i) - dt\<rparr>"
    show ?thesis
    proof (cases "life ?p \<le> 0")
      case dead: True
      obtain q h' where c: "createParticle options h = (q, h')" by (cases "createParticle options h")
      have eq: "ps_update_loop options dt i ps h = ps_update_loop options dt (Suc i) (ps[i := q]) h'"
        using True dead c by (subst ps_update_loop.simps) (simp add: Let_def)
      have kk: "k < length (ps[i := q])" using 1(3) by simp
      note ih = 1(1)[OF True refl dead c[symmetric] kk]
      have q: "ps_updated options dt (ps ! i) q"
        using dead createParticle_env[of options h] c by (auto simp: ps_updated_def)
      from ih have ih1: "k < Suc i \<longrightarrow> fst (ps_update_loop options dt i ps h) ! k = ps[i := q] ! k"
        and ih2: "Suc i \<le> k \<longrightarrow> ps_updated options dt (ps[i := q] ! k) (fst (ps_update_loop options dt i ps h) ! k)"
        unfolding eq by blast+
      show ?thesis
      proof (cases "k = i")
        case True
        with ih1 q \<open>i < length ps\<close> show ?thesis by simp
      next
        case False
        with ih1 ih2 show ?thesis by (cases "k < i") simp_all
      qed
    next
      case live: False
      have eq: "ps_update_loop options dt i ps h =
                ps_update_loop options dt (Suc i) (ps[i := ps_step options dt ?p]) h"
        using True live by (subst ps_update_loop.simps) (simp add: Let_def)
      have kk: "k < length (ps[i := ps_step options dt ?p])" using 1(3) by simp
      note ih = 1(2)[OF True refl live kk]
      have q: "ps_updated options dt (ps ! i) (ps_step options dt ?p)"
        using live by (auto simp: ps_updated_def)
      from ih have ih1: "k < Suc i \<longrightarrow> fst (ps_update_loop options dt i ps h) ! k = ps[i := ps_step options dt ?p] ! k"
        and ih2: "Suc i \<le> k \<longrightarrow> ps_updated options dt (ps[i := ps_step options dt ?p] ! k) (fst (ps_update_loop options dt i ps h) ! k)"
        unfolding eq by blast+
      show ?thesis
      proof (cases "k = i")
        case True
        with ih1 q \<open>i < length ps\<close> show ?thesis by simp
      next
        case False
        with ih1 ih2 show ?thesis by (cases "k < i") simp_all
      qed
    qed
  qed
qed

lemma ps_update_particles:
  "ps_particles (fst (ps_update time dt s h)) = fst (ps_update_loop (ps_opts s) dt 0 (ps_particles s) h)"
  by (simp add: ps_update_def split: prod.splits)

lemma ps_update_opts: "ps_opts (fst (ps_update time dt s h)) = ps_opts s"
  by (simp add: ps_update_def split: prod.splits)

lemma ps_update_length:
  "length (ps_particles (fst (ps_update time dt s h))) = length (ps_particles s)"
  by (simp add: ps_update_particles ps_update_loop_length)

lemma ps_update_nth:
  "k < length (ps_particles s) \<Longrightarrow>
   ps_updated (ps_opts s) dt (ps_particles s ! k) (ps_particles (fst (ps_update time dt s h)) ! k)"
  using ps_update_loop_nth [of k "ps_particles s" 0 "ps_opts s" dt h]
  by (simp add: ps_update_particles)

lemma ps_init_loop_shape:
  "\<exists>new. fst (ps_init_loop options i ps h) = ps @ new \<and>
         length new = nat \<lceil>ps_count options\<rceil> - i \<and>
         (\<forall>q \<in> set new. \<exists>g :: env. q = fst (createParticle options g))"
proof (induction options i ps h rule: ps_init_loop.induct)
  case (1 options i ps h)
  show ?case
  proof (cases "real i < ps_count options")
    case False
    then have "nat \<lceil>ps_count options\<rceil> - i = 0" by linarith
    with False show ?thesis by (subst ps_init_loop.simps) simp
  next
    case True
    then have less: "i < nat \<lceil>ps_count options\<rceil>" by linarith
    obtain p h' where c: "createParticle options h = (p, h')" by (cases "createParticle options h")
    have eq: "ps_init_loop options i ps h = ps_init_loop options (Suc i) (ps @ [p]) h'"
      using True c by (subst ps_init_loop.simps) simp
    from 1 [OF True c [symmetric]] obtain new where
      new: "fst (ps_init_loop options (Suc i) (ps @ [p]) h') = (ps @ [p]) @ new"
           "length new = nat \<lceil>ps_count options\<rceil> - Suc i"
           "\<forall>q \<in> set new. \<exists>g :: env. q = fst (createParticle options g)" by blast
    have p: "\<exists>g :: env. p = fst (createParticle options g)"
      using createParticle_env [of options h] c by simp
    show ?thesis
      unfolding eq
      apply (rule exI [of _ "p # new"])
      using new p less by simp
  qed
qed

lemma grow_particles_shape:
  "\<exists>new. fst (grow_particles options n ps h) = ps @ new \<and>
         length new = nat \<lceil>n\<rceil> - length ps \<and>
         (\<forall>q \<in> set new. \<exists>g :: env. q = fst (createParticle options g))"
proof (induction options n ps h rule: grow_particles.induct)
  case (1 options n ps h)
  show ?case
  proof (cases "real (length ps) < n")
    case False
    then have "nat \<lceil>n\<rceil> - length ps = 0" by linarith
    with False show ?thesis by (subst grow_particles.simps) simp
  next
    case True
    then have less: "length ps < nat \<lceil>n\<rceil>" by linarith
    obtain p h' where c: "createParticle options h = (p, h')" by (cases "createParticle options h")
    have eq: "grow_particles options n ps h = grow_particles options n (ps @ [p]) h'"
      using True c by (subst grow_particles.simps) simp
    from 1 [OF True c [symmetric]] obtain new where
      new: "fst (grow_particles options n (ps @ [p]) h') = (ps @ [p]) @ new"
           "length new = nat \<lceil>n\<rceil> - length (ps @ [p])"
           "\<forall>q \<in> set new. \<exists>g :: env. q = fst (createParticle options g)" by blast
    have p: "\<exists>g :: env. p = fst (createParticle options g)"
      using createParticle_env [of options h] c by simp
    show ?thesis
      unfolding eq
      apply (rule exI [of _ "p # new"])
      using new p less by simp
  qed
qed

lemma ps_init_particles:
  "\<exists>new. ps_particles (fst (ps_init s h)) = new \<and> length new = nat \<lceil>ps_count (ps_opts s)\<rceil> \<and>
         (\<forall>q \<in> set new. life q = ps_lifetime (ps_opts s))"
proof -
  obtain prog h1 where a: "createProgram h = (prog, h1)" by (cases "createProgram h")
  obtain buf h2 where b: "createBuffer h1 = (buf, h2)" by (cases "createBuffer h1")
  from ps_init_loop_shape [of "ps_opts s" 0 "[]" h2]
  obtain new where new: "fst (ps_init_loop (ps_opts s) 0 [] h2) = new"
      "length new = nat \<lceil>ps_count (ps_opts s)\<rceil>"
      "\<forall>q \<in> set new. \<exists>g :: env. q = fst (createParticle (ps_opts s) g)" by auto
  have "ps_particles (fst (ps_init s h)) = new"
    using a b new(1) by (auto simp add: ps_init_def ps_initParticles_def split: prod.splits)
  moreover have "\<forall>q \<in> set new. life q = ps_lifetime (ps_opts s)"
    using new(3) createParticle_life by metis
  ultimately show ?thesis using new(2) by simp
qed

lemma ps_init_opts: "ps_opts (fst (ps_init s h)) = ps_opts s"
  by (simp add: ps_init_def ps_initParticles_def split: prod.splits)

text \<open>
  C1 (as amended).  \<open>update\<close> keeps the number of particles.  It first decrements
  the life of each particle by \<open>deltaTime\<close>.  A particle whose decremented life is
  not positive is replaced, at its index, by a particle that \<open>createParticle\<close>
  returns, whose life is the configured lifetime; any other particle keeps the
  decremented life, gets \<open>gravity * deltaTime\<close> added to its velocity and then the
  new velocity times \<open>deltaTime\<close> added to its position.  When the configured
  lifetime is positive, every particle has a positive life after the call.
\<close>

theorem C1_update_recycles_or_integrates:
  "length (ps_particles (fst (ps_update time dt s h))) = length (ps_particles s) \<and>
   (\<forall>k < length (ps_particles s).
      (life (ps_particles s ! k) - dt \<le> 0 \<longrightarrow>
         (\<exists>g :: env. ps_particles (fst (ps_update time dt s h)) ! k =
                      fst (createParticle (ps_opts s) g)) \<and>
         life (ps_particles (fst (ps_update time dt s h)) ! k) = ps_lifetime (ps_opts s)) \<and>
      (0 < life (ps_particles s ! k) - dt \<longrightarrow>
         life (ps_particles (fst (ps_update time dt s h)) ! k) = life (ps_particles s ! k) - dt \<and>
         velocity (ps_particles (fst (ps_update time dt s h)) ! k) =
           vec2_add (velocity (ps_particles s ! k))
             (Vec2 (vx (ps_gravity (ps_opts s)) * dt) (vy (ps_gravity (ps_opts s)) * dt)) \<and>
         position (ps_particles (fst (ps_update time dt s h)) ! k) =
           vec2_add (position (ps_particles s ! k))
             (Vec2 (vx (velocity (ps_particles (fst (ps_update time dt s h)) ! k)) * dt)
                   (vy (velocity (ps_particles (fst (ps_update time dt s h)) ! k)) * dt)))) \<and>
   (0 < ps_lifetime (ps_opts s) \<longrightarrow>
      (\<forall>p \<in> set (ps_particles (fst (ps_update time dt s h))). 0 < life p))"
proof -
  let ?P = "ps_particles s" and ?P' = "ps_particles (fst (ps_update time dt s h))"
  have len: "length ?P' = length ?P" by (rule ps_update_length)
  have each: "ps_updated (ps_opts s) dt (?P ! k) (?P' ! k)" if "k < length ?P" for k
    using that by (rule ps_update_nth)
  have dead: "(\<exists>g :: env. ?P' ! k = fst (createParticle (ps_opts s) g)) \<and>
              life (?P' ! k) = ps_lifetime (ps_opts s)"
    if "k < length ?P" "life (?P ! k) - dt \<le> 0" for k
    using each [OF that(1)] that(2) ps_updated_dead_life [OF each [OF that(1)] that(2)]
    by (simp add: ps_updated_def)
  have live: "?P' ! k = ps_step (ps_opts s) dt ((?P ! k)\<lparr>life := life (?P ! k) - dt\<rparr>)"
    if "k < length ?P" "0 < life (?P ! k) - dt" for k
    using each [OF that(1)] that(2) by (simp add: ps_updated_def)
  have pos: "0 < life p" if lt: "0 < ps_lifetime (ps_opts s)" and p: "p \<in> set ?P'" for p
  proof -
    from p obtain k where k: "k < length ?P'" "p = ?P' ! k" by (auto simp: in_set_conv_nth)
    then have k': "k < length ?P" using len by simp
    show ?thesis
    proof (cases "life (?P ! k) - dt \<le> 0")
      case True
      with dead [OF k'] lt k show ?thesis by simp
    next
      case False
      then have "0 < life (?P ! k) - dt" by simp
      from live [OF k' this] this k show ?thesis by (simp add: ps_step_fields)
    qed
  qed
  show ?thesis
  proof (intro conjI allI impI ballI)
    show "length ?P' = length ?P" by (rule len)
  next
    fix k assume "k < length ?P" "life (?P ! k) - dt \<le> 0"
    then show "\<exists>g :: env. ?P' ! k = fst (createParticle (ps_opts s) g)"
      and "life (?P' ! k) = ps_lifetime (ps_opts s)" using dead by blast+
  next
    fix k assume k: "k < length ?P" "0 < life (?P ! k) - dt"
    note e = live [OF k]
    show "life (?P' ! k) = life (?P ! k) - dt"
      by (subst e) (simp add: ps_step_fields)
    show "velocity (?P' ! k) = vec2_add (velocity (?P ! k))
             (Vec2 (vx (ps_gravity (ps_opts s)) * dt) (vy (ps_gravity (ps_opts s)) * dt))"
      by (subst e) (simp add: ps_step_fields)
    show "position (?P' ! k) = vec2_add (position (?P ! k))
             (Vec2 (vx (velocity (?P' ! k)) * dt) (vy (velocity (?P' ! k)) * dt))"
      unfolding e by (simp add: ps_step_def Let_def)
  next
    fix p assume "0 < ps_lifetime (ps_opts s)" "p \<in> set ?P'"
    then show "0 < life p" by (rule pos)
  qed
qed

lemma three_system_facts:
  "length (ps_particles (fst three_system)) = 3"
  "\<forall>q \<in> set (ps_particles (fst three_system)). life q = 1"
  "ps_opts (fst three_system) = three_options"
  using ps_init_particles [of "ParticleSystem three_options" quiet_env]
  by (simp_all add: three_system_def ps_init_opts ParticleSystem_def three_options_def)

theorem C1_scenario_witness:
  "length (ps_particles (fst three_system)) = 3 \<and>
   life (ps_particles (fst three_system) ! 0) - 11 / 10 \<le> 0 \<and>
   life (ps_particles (fst three_system) ! 1) - 11 / 10 \<le> 0 \<and>
   life (ps_particles (fst three_system) ! 2) - 11 / 10 \<le> 0 \<and>
   length (ps_particles (fst (ps_update 0 (11 / 10) (fst three_system) (snd three_system)))) = 3 \<and>
   life (ps_particles (fst (ps_update 0 (11 / 10) (fst three_system) (snd three_system))) ! 0) = 1 \<and>
   life (ps_particles (fst (ps_update 0 (11 / 10) (fst three_system) (snd three_system))) ! 1) = 1 \<and>
   life (ps_particles (fst (ps_update 0 (11 / 10) (fst three_system) (snd three_system))) ! 2) = 1"
proof -
  have a: "\<forall>k < 3. life (ps_particles (fst three_system) ! k) - 11 / 10 \<le> 0"
    using three_system_facts(1,2) by simp
  have c: "ps_lifetime (ps_opts (fst three_system)) = 1"
    by (simp add: three_system_facts(3) three_options_def)
  show ?thesis
    using C1_update_recycles_or_integrates
            [of 0 "11 / 10" "fst three_system" "snd three_system"] a c three_system_facts(1)
    by simp
qed

lemma zero_life_system_facts:
  "length (ps_particles (fst zero_life_system)) = 1"
  "\<forall>q \<in> set (ps_particles (fst zero_life_system)). life q = 0"
  "ps_opts (fst zero_life_system) = zero_life_options"
  using ps_init_particles [of "ParticleSystem zero_life_options" quiet_env]
  by (simp_all add: zero_life_system_def ps_init_opts ParticleSystem_def zero_life_options_def)

theorem C1_zero_lifetime_counterexample:
  "(0 :: real) < 2 \<and>
   length (ps_particles (fst (ps_update 0 2 (fst zero_life_system) (snd zero_life_system)))) = 1 \<and>
   life (ps_particles (fst (ps_update 0 2 (fst zero_life_system) (snd zero_life_system))) ! 0) = 0"
proof -
  have "life (ps_particles (fst zero_life_system) ! 0) - 2 \<le> 0"
    using zero_life_system_facts(1,2) by simp
  with ps_update_nth [of 0 "fst zero_life_system" 2 0 "snd zero_life_system"]
  have "life (ps_particles (fst (ps_update 0 2 (fst zero_life_system) (snd zero_life_system))) ! 0)
        = ps_lifetime (ps_opts (fst zero_life_system))"
    using zero_life_system_facts(1) by (auto dest: ps_updated_dead_life)
  then show ?thesis
    by (simp add: ps_update_length zero_life_system_facts zero_life_options_def)
qed

section \<open>Particle systems: the number of particles\<close>

lemma is_array_length_ceiling: "is_array_length n \<Longrightarrow> real (nat \<lceil>n\<rceil>) = n"
proof -
  assume a: "is_array_length n"
  then have i: "of_int \<lfloor>n\<rfloor> = n" and p: "0 \<le> n" by (simp_all add: is_array_length_def)
  from i have "\<lceil>n\<rceil> = \<lfloor>n\<rfloor>" by (metis ceiling_of_int)
  with i p show ?thesis by simp
qed

lemma is_array_length_floor: "is_array_length n \<Longrightarrow> real (nat \<lfloor>n\<rfloor>) = n"
  by (simp add: is_array_length_def)

lemma is_array_length_real [simp]: "is_array_length (real k)"
  by (simp add: is_array_length_def)

lemma setCount_unfold:
  "setCount n s h =
     (if real (length (fst (grow_particles ((ps_opts s)\<lparr>ps_count := n\<rparr>) n (ps_particles s) h))) > n
      then (if is_array_length n
            then (None, s\<lparr>ps_opts := (ps_opts s)\<lparr>ps_count := n\<rparr>,
                           ps_particles := take (nat \<lfloor>n\<rfloor>)
                             (fst (grow_particles ((ps_opts s)\<lparr>ps_count := n\<rparr>) n (ps_particles s) h))\<rparr>,
                  snd (grow_particles ((ps_opts s)\<lparr>ps_count := n\<rparr>) n (ps_particles s) h))
            else (Some RangeError,
                  s\<lparr>ps_opts := (ps_opts s)\<lparr>ps_count := n\<rparr>,
                    ps_particles := fst (grow_particles ((ps_opts s)\<lparr>ps_count := n\<rparr>) n (ps_particles s) h)\<rparr>,
                  snd (grow_particles ((ps_opts s)\<lparr>ps_count := n\<rparr>) n (ps_particles s) h)))
      else (None,
            s\<lparr>ps_opts := (ps_opts s)\<lparr>ps_count := n\<rparr>,
              ps_particles := fst (grow_particles ((ps_opts s)\<lparr>ps_count := n\<rparr>) n (ps_particles s) h)\<rparr>,
            snd (grow_particles ((ps_opts s)\<lparr>ps_count := n\<rparr>) n (ps_particles s) h)))"
  by (simp add: setCount_def Let_def split: prod.splits)

lemma setCount_opts: "ps_opts (fst (snd (setCount n s h))) = (ps_opts s)\<lparr>ps_count := n\<rparr>"
  by (simp add: setCount_unfold)

lemma grow_particles_length:
  "length (fst (grow_particles options n ps h)) = max (length ps) (nat \<lceil>n\<rceil>)"
  using grow_particles_shape [of options n ps h] by auto

lemma setCount_grow:
  assumes "is_array_length n" "real (length (ps_particles s)) < n"
  shows "fst (setCount n s h) = None \<and>
         (\<exists>new. ps_particles (fst (snd (setCount n s h))) = ps_particles s @ new \<and>
                real (length new) = n - real (length (ps_particles s)) \<and>
                (\<forall>q \<in> set new. \<exists>g :: env. q = fst (createParticle ((ps_opts s)\<lparr>ps_count := n\<rparr>) g)))"
proof -
  from grow_particles_shape [of "(ps_opts s)\<lparr>ps_count := n\<rparr>" n "ps_particles s" h]
  obtain new where new:
    "fst (grow_particles ((ps_opts s)\<lparr>ps_count := n\<rparr>) n (ps_particles s) h) = ps_particles s @ new"
    "length new = nat \<lceil>n\<rceil> - length (ps_particles s)"
    "\<forall>q \<in> set new. \<exists>g :: env. q = fst (createParticle ((ps_opts s)\<lparr>ps_count := n\<rparr>) g)"
    by blast
  have less: "length (ps_particles s) < nat \<lceil>n\<rceil>" using assms(2) by linarith
  have len: "real (length new) = n - real (length (ps_particles s))"
    using new(2) less is_array_length_ceiling [OF assms(1)] by (simp add: of_nat_diff)
  then have "real (length (ps_particles s @ new)) = n" by simp
  then have "\<not> real (length (fst (grow_particles ((ps_opts s)\<lparr>ps_count := n\<rparr>) n (ps_particles s) h))) > n"
    unfolding new(1) by linarith
  then have "fst (setCount n s h) = None"
    and "ps_particles (fst (snd (setCount n s h))) = ps_particles s @ new"
    by (simp_all add: setCount_unfold new(1))
  with len new(3) show ?thesis by blast
qed

lemma setCount_shrink:
  assumes "is_array_length n" "n \<le> real (length (ps_particles s))"
  shows "fst (setCount n s h) = None \<and>
         ps_particles (fst (snd (setCount n s h))) = take (nat \<lfloor>n\<rfloor>) (ps_particles s)"
proof -
  have g: "fst (grow_particles ((ps_opts s)\<lparr>ps_count := n\<rparr>) n (ps_particles s) h) = ps_particles s"
    using assms(2) by (subst grow_particles.simps) simp
  show ?thesis
  proof (cases "real (length (ps_particles s)) > n")
    case True
    with assms(1) g show ?thesis by (simp add: setCount_unfold)
  next
    case False
    with assms(2) have "real (length (ps_particles s)) = n" by simp
    then have "nat \<lfloor>n\<rfloor> = length (ps_particles s)" by (metis floor_of_nat nat_int)
    with False g show ?thesis by (simp add: setCount_unfold)
  qed
qed

lemma setCount_throws:
  assumes "\<not> is_array_length n"
  shows "fst (setCount n s h) = Some RangeError"
proof -
  let ?ps = "fst (grow_particles ((ps_opts s)\<lparr>ps_count := n\<rparr>) n (ps_particles s) h)"
  have "n \<le> real (nat \<lceil>n\<rceil>)" by linarith
  also have "\<dots> \<le> real (length ?ps)" by (simp add: grow_particles_length)
  finally have ge: "n \<le> real (length ?ps)" .
  have "real (length ?ps) \<noteq> n"
  proof
    assume "real (length ?ps) = n"
    then have "is_array_length n" using is_array_length_real [of "length ?ps"] by simp
    with assms show False ..
  qed
  with ge have "real (length ?ps) > n" by simp
  with assms show ?thesis by (simp add: setCount_unfold)
qed

lemma setCount_length:
  assumes "is_array_length n"
  shows "real (length (ps_particles (fst (snd (setCount n s h))))) = n"
proof (cases "real (length (ps_particles s)) < n")
  case True
  from setCount_grow [OF assms this, of h] show ?thesis by auto
next
  case False
  then have le: "n \<le> real (length (ps_particles s))" by simp
  then have "nat \<lfloor>n\<rfloor> \<le> length (ps_particles s)" by linarith
  with setCount_shrink [OF assms le, of h] is_array_length_floor [OF assms] show ?thesis
    by (simp add: min_def)
qed

lemma setCount_returns: "is_array_length n \<Longrightarrow> fst (setCount n s h) = None"
  using setCount_grow [of n s h] setCount_shrink [of n s h]
  by (cases "real (length (ps_particles s)) < n") auto

lemma ps_destroy_keeps:
  "ps_particles (fst (ps_destroy s h)) = ps_particles s"
  "ps_opts (fst (ps_destroy s h)) = ps_opts s"
  by (simp_all add: ps_destroy_def Let_def split: option.splits prod.splits)

lemma ps_init_length: "length (ps_particles (fst (ps_init s h))) = nat \<lceil>ps_count (ps_opts s)\<rceil>"
  using ps_init_particles [of s h] by simp

text \<open>The invariant: the array is as long as the recorded count.\<close>

lemma ps_init_counted:
  assumes "is_array_length (ps_count (ps_opts s))"
  shows "counted (fst (ps_init s h))"
  using is_array_length_ceiling [OF assms] by (simp add: counted_def ps_init_length ps_init_opts)

lemma counted_whole: "counted s \<Longrightarrow> is_array_length (ps_count (ps_opts s))"
  by (metis counted_def is_array_length_real)

lemma ps_perform_counted:
  assumes "counted (fst st)" "whole_counts [c]"
  shows "fst (ps_perform c st) = None \<and> counted (fst (snd (ps_perform c st)))"
proof (cases st)
  case (Pair s h)
  show ?thesis
  proof (cases c)
    case PsInit
    with Pair assms(1) show ?thesis by (simp add: ps_init_counted counted_whole)
  next
    case (PsUpdate time dt)
    with Pair assms(1) show ?thesis by (simp add: counted_def ps_update_length ps_update_opts)
  next
    case PsRender
    with Pair assms(1) show ?thesis by simp
  next
    case (PsResize w hh)
    with Pair assms(1) show ?thesis by (simp add: counted_def ps_resize_def Let_def)
  next
    case PsDestroy
    with Pair assms(1) show ?thesis by (simp add: counted_def ps_destroy_keeps)
  next
    case (PsSetEmitterPosition a b)
    with Pair assms(1) show ?thesis by (simp add: counted_def setEmitterPosition_def)
  next
    case (PsSetColor col)
    with Pair assms(1) show ?thesis by (simp add: counted_def setColor_def)
  next
    case (PsSetCount n)
    with Pair assms(2) show ?thesis
      by (simp add: counted_def setCount_length setCount_opts setCount_returns)
  qed
qed

lemma ps_perform_count:
  "ps_count (ps_opts (fst (snd (ps_perform c st)))) =
     (case c of PsSetCount n \<Rightarrow> n | _ \<Rightarrow> ps_count (ps_opts (fst st)))"
proof (cases st)
  case (Pair s h)
  then show ?thesis
    by (cases c)
       (simp_all add: ps_init_opts ps_update_opts ps_resize_def
          Let_def ps_destroy_keeps setEmitterPosition_def setColor_def setCount_opts)
qed

lemma wanted_count_step:
  "wanted_count n (c # calls) = wanted_count (case c of PsSetCount m \<Rightarrow> m | _ \<Rightarrow> n) calls"
  by (cases c) simp_all

lemma whole_counts_step: "whole_counts (c # calls) \<longleftrightarrow> whole_counts [c] \<and> whole_counts calls"
  by (cases c) simp_all

lemma ps_run_counted:
  "counted (fst st) \<Longrightarrow> whole_counts calls \<Longrightarrow>
   fst (ps_run calls st) = None \<and>
   real (length (ps_particles (fst (snd (ps_run calls st))))) =
     wanted_count (ps_count (ps_opts (fst st))) calls"
proof (induction calls arbitrary: st)
  case Nil
  then show ?case by (simp add: counted_def)
next
  case (Cons c calls)
  from Cons.prems(2) have w: "whole_counts [c]" "whole_counts calls"
    using whole_counts_step [of c calls] by simp_all
  obtain st' where p: "ps_perform c st = (None, st')" and inv: "counted (fst st')"
    using ps_perform_counted [OF Cons.prems(1) w(1)] by (cases "ps_perform c st") auto
  have cnt: "ps_count (ps_opts (fst st')) = (case c of PsSetCount n \<Rightarrow> n | _ \<Rightarrow> ps_count (ps_opts (fst st)))"
    using ps_perform_count [of c st] p by simp
  from Cons.IH [OF inv w(2)] show ?case
    by (simp add: p cnt wanted_count_step del: wanted_count.simps)
qed

text \<open>
  C3 (as amended).  A count is a number, and it need not be a non-negative integer.
  When the count given to the constructor is a non-negative integer and so is the
  argument of every \<open>setCount\<close>, no call among any sequence of calls of the methods of
  an initialised particle system throws (updates with any \<open>deltaTime\<close>, renders,
  resizes, \<open>setCount\<close> and the other setters, and also \<open>destroy\<close> and a repeated
  \<open>init\<close>), and afterwards the number of particles is the count given to the
  constructor, or the argument of the latest \<open>setCount\<close> if there was one.  For a
  non-negative integer \<open>n\<close>, \<open>setCount n\<close> on a shorter array appends \<open>n - length\<close>
  particles that \<open>createParticle\<close> returns, and on an array that is at least as long it
  keeps the first \<open>n\<close> particles.  For any other number \<open>m\<close>, \<open>setCount m\<close> throws a
  \<open>RangeError\<close>; and \<open>init\<close> creates as many particles as the least natural number
  that is at least the count.
\<close>

theorem C3_particle_count:
  "(is_array_length (ps_count options) \<and> whole_counts calls \<longrightarrow>
      fst (ps_run calls (ps_init (ParticleSystem options) h)) = None \<and>
      real (length (ps_particles (fst (snd (ps_run calls (ps_init (ParticleSystem options) h)))))) =
        wanted_count (ps_count options) calls) \<and>
   (is_array_length n \<and> real (length (ps_particles s)) < n \<longrightarrow>
      fst (setCount n s h) = None \<and>
      (\<exists>new. ps_particles (fst (snd (setCount n s h))) = ps_particles s @ new \<and>
             real (length new) = n - real (length (ps_particles s)) \<and>
             (\<forall>q \<in> set new. \<exists>g :: env. q = fst (createParticle ((ps_opts s)\<lparr>ps_count := n\<rparr>) g)))) \<and>
   (is_array_length n \<and> n \<le> real (length (ps_particles s)) \<longrightarrow>
      fst (setCount n s h) = None \<and>
      ps_particles (fst (snd (setCount n s h))) = take (nat \<lfloor>n\<rfloor>) (ps_particles s)) \<and>
   (\<not> is_array_length m \<longrightarrow> fst (setCount m s h) = Some RangeError) \<and>
   length (ps_particles (fst (ps_init (ParticleSystem options) h))) = nat \<lceil>ps_count options\<rceil>"
proof -
  have o: "ps_opts (ParticleSystem options) = options" by (simp add: ParticleSystem_def)
  have run: "fst (ps_run calls (ps_init (ParticleSystem options) h)) = None \<and>
      real (length (ps_particles (fst (snd (ps_run calls (ps_init (ParticleSystem options) h)))))) =
        wanted_count (ps_count options) calls"
    if "is_array_length (ps_count options)" "whole_counts calls"
    using ps_run_counted [OF ps_init_counted [of "ParticleSystem options" h] that(2)] that(1)
    by (simp add: o ps_init_opts)
  have len: "length (ps_particles (fst (ps_init (ParticleSystem options) h))) = nat \<lceil>ps_count options\<rceil>"
    by (simp add: ps_init_length o)
  show ?thesis
    using run len setCount_grow [of n s h] setCount_shrink [of n s h] setCount_throws [of m s h]
    by blast
qed

lemma three_count: "is_array_length (ps_count three_options)"
  by (simp add: three_options_def is_array_length_def)

theorem C3_witness:
  "is_array_length (ps_count three_options) \<and>
   whole_counts [PsUpdate 0 (11 / 10), PsRender, PsSetCount 5, PsUpdate (11 / 10) 4,
                 PsSetCount 2, PsRender] \<and>
   fst (ps_run
       [PsUpdate 0 (11 / 10), PsRender, PsSetCount 5, PsUpdate (11 / 10) 4, PsSetCount 2, PsRender]
       (ps_init (ParticleSystem three_options) quiet_env)) = None \<and>
   length (ps_particles (fst (snd (ps_run
       [PsUpdate 0 (11 / 10), PsRender, PsSetCount 5, PsUpdate (11 / 10) 4, PsSetCount 2, PsRender]
       (ps_init (ParticleSystem three_options) quiet_env))))) = 2 \<and>
   is_array_length 5 \<and> real (length (ps_particles (fst three_system))) < 5 \<and>
   fst (setCount 5 (fst three_system) quiet_env) = None \<and>
   length (ps_particles (fst (snd (setCount 5 (fst three_system) quiet_env)))) = 5 \<and>
   take 3 (ps_particles (fst (snd (setCount 5 (fst three_system) quiet_env)))) =
     ps_particles (fst three_system) \<and>
   is_array_length 2 \<and> 2 \<le> real (length (ps_particles (fst three_system))) \<and>
   fst (setCount 2 (fst three_system) quiet_env) = None \<and>
   ps_particles (fst (snd (setCount 2 (fst three_system) quiet_env))) =
     take 2 (ps_particles (fst three_system)) \<and>
   \<not> is_array_length (7 / 2) \<and>
   fst (setCount (7 / 2) (fst three_system) quiet_env) = Some RangeError \<and>
   length (ps_particles (fst (ps_init (ParticleSystem three_options) quiet_env))) = 3"
proof -
  let ?calls = "[PsUpdate 0 (11 / 10), PsRender, PsSetCount 5, PsUpdate (11 / 10) 4,
                 PsSetCount 2, PsRender]"
  note a = C3_particle_count [of three_options ?calls quiet_env 5 "fst three_system" "7 / 2"]
  note b = C3_particle_count [of three_options "[]" quiet_env 2 "fst three_system" "7 / 2"]
  have w5: "is_array_length 5" and w2: "is_array_length 2" and w7: "\<not> is_array_length (7 / 2)"
    by (simp_all add: is_array_length_def)
  have wc: "whole_counts ?calls" using w5 w2 by simp
  have l3: "length (ps_particles (fst three_system)) = 3" by (rule three_system_facts(1))
  from a three_count wc have a1: "fst (ps_run ?calls (ps_init (ParticleSystem three_options) quiet_env)) = None"
    and a2: "real (length (ps_particles (fst (snd (ps_run ?calls
               (ps_init (ParticleSystem three_options) quiet_env)))))) = 2"
    by simp_all
  from a2 have a3: "length (ps_particles (fst (snd (ps_run ?calls
               (ps_init (ParticleSystem three_options) quiet_env))))) = 2"
    by linarith
  from a w5 l3 have g0: "fst (setCount 5 (fst three_system) quiet_env) = None" by simp
  from a w5 l3 obtain new where
    "ps_particles (fst (snd (setCount 5 (fst three_system) quiet_env))) =
       ps_particles (fst three_system) @ new"
    "real (length new) = 2" by auto
  then have g: "length (ps_particles (fst (snd (setCount 5 (fst three_system) quiet_env)))) = 5"
    "take 3 (ps_particles (fst (snd (setCount 5 (fst three_system) quiet_env)))) =
       ps_particles (fst three_system)"
    using l3 by simp_all
  from b w2 l3 have s: "fst (setCount 2 (fst three_system) quiet_env) = None"
    "ps_particles (fst (snd (setCount 2 (fst three_system) quiet_env))) =
       take 2 (ps_particles (fst three_system))" by simp_all
  from a w7 have t: "fst (setCount (7 / 2) (fst three_system) quiet_env) = Some RangeError" by simp
  from a have i: "length (ps_particles (fst (ps_init (ParticleSystem three_options) quiet_env))) = 3"
    by (simp add: three_options_def)
  show ?thesis using three_count wc a1 a3 w5 w2 w7 l3 g0 g s t i by simp
qed

lemma ps_run_update_render:
  "fst (ps_run [PsUpdate time dt, PsRender] (s, h)) = None \<and>
   length (ps_particles (fst (snd (ps_run [PsUpdate time dt, PsRender] (s, h))))) =
     length (ps_particles s)"
  using ps_update_length [of time dt s h]
  by (cases "ps_update time dt s h") simp

theorem C3_fractional_or_negative_count_counterexample:
  "ps_count (three_options\<lparr>ps_count := 5 / 2\<rparr>) = 5 / 2 \<and>
   fst (ps_run [PsUpdate 0 (11 / 10), PsRender]
          (ps_init (ParticleSystem (three_options\<lparr>ps_count := 5 / 2\<rparr>)) quiet_env)) = None \<and>
   length (ps_particles (fst (snd (ps_run [PsUpdate 0 (11 / 10), PsRender]
          (ps_init (ParticleSystem (three_options\<lparr>ps_count := 5 / 2\<rparr>)) quiet_env))))) = 3 \<and>
   real 3 \<noteq> 5 / 2 \<and>
   length (ps_particles (fst three_system)) = 3 \<and>
   fst (setCount (- 1) (fst three_system) (snd three_system)) = Some RangeError \<and>
   length (ps_particles (fst (snd (setCount (- 1) (fst three_system) (snd three_system))))) = 3 \<and>
   fst (setCount (7 / 2) (fst three_system) (snd three_system)) = Some RangeError \<and>
   length (ps_particles (fst (snd (setCount (7 / 2) (fst three_system) (snd three_system))))) = 4"
proof -
  let ?o = "three_options\<lparr>ps_count := 5 / 2\<rparr>"
  have c: "\<lceil>5 / 2 :: real\<rceil> = 3" by linarith
  have i: "length (ps_particles (fst (ps_init (ParticleSystem ?o) quiet_env))) = 3"
    by (simp add: ps_init_length ParticleSystem_def c)
  have r: "fst (ps_run [PsUpdate 0 (11 / 10), PsRender] (ps_init (ParticleSystem ?o) quiet_env)) = None \<and>
     length (ps_particles (fst (snd (ps_run [PsUpdate 0 (11 / 10), PsRender]
          (ps_init (ParticleSystem ?o) quiet_env))))) = 3"
    using ps_run_update_render [of 0 "11 / 10" "fst (ps_init (ParticleSystem ?o) quiet_env)"
             "snd (ps_init (ParticleSystem ?o) quiet_env)"] i
    by simp
  have l3: "length (ps_particles (fst three_system)) = 3" by (rule three_system_facts(1))
  have n1: "\<not> is_array_length (- 1)" and n7: "\<not> is_array_length (7 / 2)"
    by (simp_all add: is_array_length_def)
  have g1: "length (fst (grow_particles ((ps_opts (fst three_system))\<lparr>ps_count := - 1\<rparr>) (- 1)
              (ps_particles (fst three_system)) (snd three_system))) = 3"
    by (simp add: grow_particles_length l3)
  have c7: "\<lceil>7 / 2 :: real\<rceil> = 4" by linarith
  have g7: "length (fst (grow_particles ((ps_opts (fst three_system))\<lparr>ps_count := 7 / 2\<rparr>) (7 / 2)
              (ps_particles (fst three_system)) (snd three_system))) = 4"
    by (simp add: grow_particles_length l3 c7)
  have e1: "length (ps_particles (fst (snd (setCount (- 1) (fst three_system) (snd three_system))))) = 3"
    unfolding setCount_unfold using n1 g1 by simp
  have e7: "length (ps_particles (fst (snd (setCount (7 / 2) (fst three_system) (snd three_system))))) = 4"
    unfolding setCount_unfold using n7 g7 by simp
  have t1: "fst (setCount (- 1) (fst three_system) (snd three_system)) = Some RangeError"
    by (rule setCount_throws [OF n1])
  have t7: "fst (setCount (7 / 2) (fst three_system) (snd three_system)) = Some RangeError"
    by (rule setCount_throws [OF n7])
  have o: "ps_count ?o = 5 / 2" "real 3 \<noteq> 5 / 2" by simp_all
  from o r l3 t1 e1 t7 e7 show ?thesis by blast
qed

section \<open>Particle systems: the emitter and resize\<close>

text \<open>
  C10.  \<open>resize\<close> moves the emitter to the centre \<open>(w/2, h/2)\<close> exactly when the
  emitter is at \<open>(0, 0)\<close> at the time of the call, and leaves any other emitter
  position alone.  This does not depend on whether the system was resized before: an
  emitter that the caller puts at the origin with \<open>setEmitterPosition(0, 0)\<close> is moved
  to the centre by the next resize.
\<close>

theorem C10_resize_recenters_origin_emitter:
  "(vx (ps_emitterPosition (ps_opts s)) = 0 \<and> vy (ps_emitterPosition (ps_opts s)) = 0 \<longrightarrow>
      ps_emitterPosition (ps_opts (ps_resize w h s)) = Vec2 (w / 2) (h / 2)) \<and>
   (\<not> (vx (ps_emitterPosition (ps_opts s)) = 0 \<and> vy (ps_emitterPosition (ps_opts s)) = 0) \<longrightarrow>
      ps_emitterPosition (ps_opts (ps_resize w h s)) = ps_emitterPosition (ps_opts s)) \<and>
   ps_emitterPosition (ps_opts (ps_resize w h (setEmitterPosition 0 0 s))) = Vec2 (w / 2) (h / 2) \<and>
   ps_emitterPosition (ps_opts (ps_resize w h (setEmitterPosition 0 0 (ps_resize w0 h0 s)))) =
     Vec2 (w / 2) (h / 2)"
  by (simp add: ps_resize_def setEmitterPosition_def vec2_set_def Vec2_def Let_def)

theorem C10_witness:
  "vx (ps_emitterPosition (ps_opts (ParticleSystem ps_default_options))) = 0 \<and>
   vy (ps_emitterPosition (ps_opts (ParticleSystem ps_default_options))) = 0 \<and>
   ps_emitterPosition (ps_opts (ps_resize 800 600 (ParticleSystem ps_default_options))) = Vec2 400 300 \<and>
   vx (ps_emitterPosition (ps_opts (setEmitterPosition 10 0 (ParticleSystem ps_default_options)))) \<noteq> 0 \<and>
   ps_emitterPosition (ps_opts (ps_resize 800 600
       (setEmitterPosition 10 0 (ParticleSystem ps_default_options)))) = Vec2 10 0 \<and>
   ps_emitterPosition (ps_opts (ps_resize 800 600
       (setEmitterPosition 0 0 (ps_resize 640 480
          (setEmitterPosition 10 0 (ParticleSystem ps_default_options)))))) = Vec2 400 300"
proof -
  have z: "vx (ps_emitterPosition (ps_opts (ParticleSystem ps_default_options))) = 0 \<and>
           vy (ps_emitterPosition (ps_opts (ParticleSystem ps_default_options))) = 0"
    by (simp add: ParticleSystem_def ps_default_options_def Vec2_def)
  have n: "vx (ps_emitterPosition (ps_opts (setEmitterPosition 10 0 (ParticleSystem ps_default_options)))) \<noteq> 0"
    by (simp add: setEmitterPosition_def vec2_set_def)
  have e: "ps_emitterPosition (ps_opts (setEmitterPosition 10 0 (ParticleSystem ps_default_options)))
           = Vec2 10 0"
    by (simp add: setEmitterPosition_def vec2_set_def ParticleSystem_def ps_default_options_def Vec2_def)
  show ?thesis
    using C10_resize_recenters_origin_emitter [of "ParticleSystem ps_default_options" 800 600 0 0]
      C10_resize_recenters_origin_emitter
        [of "setEmitterPosition 10 0 (ParticleSystem ps_default_options)" 800 600 640 480]
      z n e
    by simp
qed

section \<open>Floating particles: wrapping at the edges\<close>

lemma fp_move_velocity: "fvelocity (fp_move w h dt p) = fvelocity p"
  by (simp add: fp_move_def Let_def)

lemma fp_move_size: "fsize (fp_move w h dt p) = fsize p"
  by (simp add: fp_move_def Let_def)

lemma fp_move_x:
  "vx (fposition (fp_move w h dt p)) =
     (let x1 = vx (fposition p) + vx (fvelocity p) * dt in
      if x1 < 0 then w else if x1 > w then 0 else x1)"
  by (simp add: fp_move_def Let_def)

lemma fp_move_y:
  "vy (fposition (fp_move w h dt p)) =
     (let y1 = vy (fposition p) + vy (fvelocity p) * dt in
      if y1 < 0 then h else if y1 > h then 0 else y1)"
  by (simp add: fp_move_def Let_def)

lemma fp_move_in_range:
  "0 \<le> w \<Longrightarrow> 0 \<le> h \<Longrightarrow>
   0 \<le> vx (fposition (fp_move w h dt p)) \<and> vx (fposition (fp_move w h dt p)) \<le> w \<and>
   0 \<le> vy (fposition (fp_move w h dt p)) \<and> vy (fposition (fp_move w h dt p)) \<le> h"
  by (simp add: fp_move_x fp_move_y Let_def)

text \<open>
  C4.  If every particle of a floating-particles effect lies on the logical
  surface \<open>[0, width] \<times> [0, height]\<close>, then so does every particle after \<open>update\<close>.
  The update keeps the number of particles and every velocity.  With \<open>(x1, y1)\<close> the
  position of a particle advanced by velocity times \<open>deltaTime\<close>: if \<open>x1\<close> is left of
  the surface the particle is put on the right edge, if \<open>x1\<close> is right of it on the
  left edge, and in both cases the other coordinate is \<open>y1\<close> when that lies on the
  surface; likewise for \<open>y1\<close> above or below the surface, with \<open>x1\<close> kept.
\<close>

theorem C4_update_wraps:
  "(\<forall>p \<in> set (fp_particles s).
      0 \<le> vx (fposition p) \<and> vx (fposition p) \<le> fp_width s \<and>
      0 \<le> vy (fposition p) \<and> vy (fposition p) \<le> fp_height s) \<longrightarrow>
   length (fp_particles (fp_update time dt s)) = length (fp_particles s) \<and>
   fp_width (fp_update time dt s) = fp_width s \<and> fp_height (fp_update time dt s) = fp_height s \<and>
   (\<forall>q \<in> set (fp_particles (fp_update time dt s)).
      0 \<le> vx (fposition q) \<and> vx (fposition q) \<le> fp_width s \<and>
      0 \<le> vy (fposition q) \<and> vy (fposition q) \<le> fp_height s) \<and>
   (\<forall>k < length (fp_particles s).
      fvelocity (fp_particles (fp_update time dt s) ! k) = fvelocity (fp_particles s ! k) \<and>
      (vx (fposition (fp_particles s ! k)) + vx (fvelocity (fp_particles s ! k)) * dt < 0 \<longrightarrow>
         vx (fposition (fp_particles (fp_update time dt s) ! k)) = fp_width s) \<and>
      (vx (fposition (fp_particles s ! k)) + vx (fvelocity (fp_particles s ! k)) * dt > fp_width s \<longrightarrow>
         vx (fposition (fp_particles (fp_update time dt s) ! k)) = 0) \<and>
      (vy (fposition (fp_particles s ! k)) + vy (fvelocity (fp_particles s ! k)) * dt < 0 \<longrightarrow>
         vy (fposition (fp_particles (fp_update time dt s) ! k)) = fp_height s) \<and>
      (vy (fposition (fp_particles s ! k)) + vy (fvelocity (fp_particles s ! k)) * dt > fp_height s \<longrightarrow>
         vy (fposition (fp_particles (fp_update time dt s) ! k)) = 0) \<and>
      (0 \<le> vx (fposition (fp_particles s ! k)) + vx (fvelocity (fp_particles s ! k)) * dt \<and>
       vx (fposition (fp_particles s ! k)) + vx (fvelocity (fp_particles s ! k)) * dt \<le> fp_width s \<longrightarrow>
         vx (fposition (fp_particles (fp_update time dt s) ! k)) =
           vx (fposition (fp_particles s ! k)) + vx (fvelocity (fp_particles s ! k)) * dt) \<and>
      (0 \<le> vy (fposition (fp_particles s ! k)) + vy (fvelocity (fp_particles s ! k)) * dt \<and>
       vy (fposition (fp_particles s ! k)) + vy (fvelocity (fp_particles s ! k)) * dt \<le> fp_height s \<longrightarrow>
         vy (fposition (fp_particles (fp_update time dt s) ! k)) =
           vy (fposition (fp_particles s ! k)) + vy (fvelocity (fp_particles s ! k)) * dt))"
proof (intro impI)
  assume inside: "\<forall>p \<in> set (fp_particles s).
      0 \<le> vx (fposition p) \<and> vx (fposition p) \<le> fp_width s \<and>
      0 \<le> vy (fposition p) \<and> vy (fposition p) \<le> fp_height s"
  have upd: "fp_particles (fp_update time dt s) = map (fp_move (fp_width s) (fp_height s) dt) (fp_particles s)"
    by (simp add: fp_update_def)
  have size: "0 \<le> fp_width s \<and> 0 \<le> fp_height s" if "fp_particles s \<noteq> []"
  proof -
    from that obtain p where "p \<in> set (fp_particles s)" by (cases "fp_particles s") auto
    with inside show ?thesis by force
  qed
  have range: "0 \<le> vx (fposition q) \<and> vx (fposition q) \<le> fp_width s \<and>
               0 \<le> vy (fposition q) \<and> vy (fposition q) \<le> fp_height s"
    if "q \<in> set (fp_particles (fp_update time dt s))" for q
  proof -
    from that obtain p where p: "p \<in> set (fp_particles s)" "q = fp_move (fp_width s) (fp_height s) dt p"
      unfolding upd by auto
    then have "fp_particles s \<noteq> []" by auto
    from size [OF this] p(2) show ?thesis using fp_move_in_range by blast
  qed
  have nth: "fp_particles (fp_update time dt s) ! k = fp_move (fp_width s) (fp_height s) dt (fp_particles s ! k)"
    if "k < length (fp_particles s)" for k
    using that unfolding upd by simp
  have wrap: "fvelocity (fp_particles (fp_update time dt s) ! k) = fvelocity (fp_particles s ! k) \<and>
      (vx (fposition (fp_particles s ! k)) + vx (fvelocity (fp_particles s ! k)) * dt < 0 \<longrightarrow>
         vx (fposition (fp_particles (fp_update time dt s) ! k)) = fp_width s) \<and>
      (vx (fposition (fp_particles s ! k)) + vx (fvelocity (fp_particles s ! k)) * dt > fp_width s \<longrightarrow>
         vx (fposition (fp_particles (fp_update time dt s) ! k)) = 0) \<and>
      (vy (fposition (fp_particles s ! k)) + vy (fvelocity (fp_particles s ! k)) * dt < 0 \<longrightarrow>
         vy (fposition (fp_particles (fp_update time dt s) ! k)) = fp_height s) \<and>
      (vy (fposition (fp_particles s ! k)) + vy (fvelocity (fp_particles s ! k)) * dt > fp_height s \<longrightarrow>
         vy (fposition (fp_particles (fp_update time dt s) ! k)) = 0) \<and>
      (0 \<le> vx (fposition (fp_particles s ! k)) + vx (fvelocity (fp_particles s ! k)) * dt \<and>
       vx (fposition (fp_particles s ! k)) + vx (fvelocity (fp_particles s ! k)) * dt \<le> fp_width s \<longrightarrow>
         vx (fposition (fp_particles (fp_update time dt s) ! k)) =
           vx (fposition (fp_particles s ! k)) + vx (fvelocity (fp_particles s ! k)) * dt) \<and>
      (0 \<le> vy (fposition (fp_particles s ! k)) + vy (fvelocity (fp_particles s ! k)) * dt \<and>
       vy (fposition (fp_particles s ! k)) + vy (fvelocity (fp_particles s ! k)) * dt \<le> fp_height s \<longrightarrow>
         vy (fposition (fp_particles (fp_update time dt s) ! k)) =
           vy (fposition (fp_particles s ! k)) + vy (fvelocity (fp_particles s ! k)) * dt)"
    if k: "k < length (fp_particles s)" for k
  proof -
    from k have "fp_particles s \<noteq> []" by auto
    from size [OF this] show ?thesis
      unfolding nth [OF k] by (simp add: fp_move_velocity fp_move_x fp_move_y Let_def)
  qed
  show "length (fp_particles (fp_update time dt s)) = length (fp_particles s) \<and>
   fp_width (fp_update time dt s) = fp_width s \<and> fp_height (fp_update time dt s) = fp_height s \<and>
   (\<forall>q \<in> set (fp_particles (fp_update time dt s)).
      0 \<le> vx (fposition q) \<and> vx (fposition q) \<le> fp_width s \<and>
      0 \<le> vy (fposition q) \<and> vy (fposition q) \<le> fp_height s) \<and>
   (\<forall>k < length (fp_particles s).
      fvelocity (fp_particles (fp_update time dt s) ! k) = fvelocity (fp_particles s ! k) \<and>
      (vx (fposition (fp_particles s ! k)) + vx (fvelocity (fp_particles s ! k)) * dt < 0 \<longrightarrow>
         vx (fposition (fp_particles (fp_update time dt s) ! k)) = fp_width s) \<and>
      (vx (fposition (fp_particles s ! k)) + vx (fvelocity (fp_particles s ! k)) * dt > fp_width s \<longrightarrow>
         vx (fposition (fp_particles (fp_update time dt s) ! k)) = 0) \<and>
      (vy (fposition (fp_particles s ! k)) + vy (fvelocity (fp_particles s ! k)) * dt < 0 \<longrightarrow>
         vy (fposition (fp_particles (fp_update time dt s) ! k)) = fp_height s) \<and>
      (vy (fposition (fp_particles s ! k)) + vy (fvelocity (fp_particles s ! k)) * dt > fp_height s \<longrightarrow>
         vy (fposition (fp_particles (fp_update time dt s) ! k)) = 0) \<and>
      (0 \<le> vx (fposition (fp_particles s ! k)) + vx (fvelocity (fp_particles s ! k)) * dt \<and>
       vx (fposition (fp_particles s ! k)) + vx (fvelocity (fp_particles s ! k)) * dt \<le> fp_width s \<longrightarrow>
         vx (fposition (fp_particles (fp_update time dt s) ! k)) =
           vx (fposition (fp_particles s ! k)) + vx (fvelocity (fp_particles s ! k)) * dt) \<and>
      (0 \<le> vy (fposition (fp_particles s ! k)) + vy (fvelocity (fp_particles s ! k)) * dt \<and>
       vy (fposition (fp_particles s ! k)) + vy (fvelocity (fp_particles s ! k)) * dt \<le> fp_height s \<longrightarrow>
         vy (fposition (fp_particles (fp_update time dt s) ! k)) =
           vy (fposition (fp_particles s ! k)) + vy (fvelocity (fp_particles s ! k)) * dt))"
    using range wrap by (simp add: fp_update_def)
qed

theorem C4_witness:
  "0 \<le> vx (fposition (fp_particles edge_field ! 0)) \<and>
   vx (fposition (fp_particles edge_field ! 0)) \<le> fp_width edge_field \<and>
   0 \<le> vy (fposition (fp_particles edge_field ! 0)) \<and>
   vy (fposition (fp_particles edge_field ! 0)) \<le> fp_height edge_field \<and>
   vx (fposition (fp_particles edge_field ! 0)) + vx (fvelocity (fp_particles edge_field ! 0)) * 1 < 0 \<and>
   fposition (fp_particles (fp_update 0 1 edge_field) ! 0) = Vec2 100 10 \<and>
   fvelocity (fp_particles (fp_update 0 1 edge_field) ! 0) = Vec2 (-20) 0"
proof -
  have pre: "\<forall>p \<in> set (fp_particles edge_field).
      0 \<le> vx (fposition p) \<and> vx (fposition p) \<le> fp_width edge_field \<and>
      0 \<le> vy (fposition p) \<and> vy (fposition p) \<le> fp_height edge_field"
    by (simp add: edge_field_def Vec2_def)
  have f: "fp_particles edge_field ! 0 = \<lparr>fposition = Vec2 1 10, fvelocity = Vec2 (-20) 0, fsize = 2\<rparr>"
    "length (fp_particles edge_field) = 1" "fp_width edge_field = 100" "fp_height edge_field = 50"
    by (simp_all add: edge_field_def)
  have k: "0 < length (fp_particles edge_field)" by (simp add: f)
  note c = C4_update_wraps [of edge_field 0 1, THEN mp, OF pre]
  note w = c [THEN conjunct2, THEN conjunct2, THEN conjunct2, THEN conjunct2, rule_format, OF k]
  have left: "vx (fposition (fp_particles edge_field ! 0)) + vx (fvelocity (fp_particles edge_field ! 0)) * 1 < 0"
    by (simp add: f Vec2_def)
  have mid: "0 \<le> vy (fposition (fp_particles edge_field ! 0)) + vy (fvelocity (fp_particles edge_field ! 0)) * 1 \<and>
       vy (fposition (fp_particles edge_field ! 0)) + vy (fvelocity (fp_particles edge_field ! 0)) * 1
         \<le> fp_height edge_field"
    by (simp add: f Vec2_def)
  have v: "fvelocity (fp_particles (fp_update 0 1 edge_field) ! 0) = fvelocity (fp_particles edge_field ! 0)"
    by (rule w [THEN conjunct1])
  have x: "vx (fposition (fp_particles (fp_update 0 1 edge_field) ! 0)) = fp_width edge_field"
    by (rule w [THEN conjunct2, THEN conjunct1, THEN mp, OF left])
  have y: "vy (fposition (fp_particles (fp_update 0 1 edge_field) ! 0)) =
             vy (fposition (fp_particles edge_field ! 0)) + vy (fvelocity (fp_particles edge_field ! 0)) * 1"
    by (rule w [THEN conjunct2, THEN conjunct2, THEN conjunct2, THEN conjunct2, THEN conjunct2,
                THEN conjunct2, THEN mp, OF mid])
  have "fvelocity (fp_particles (fp_update 0 1 edge_field) ! 0) = Vec2 (-20) 0 \<and>
        vx (fposition (fp_particles (fp_update 0 1 edge_field) ! 0)) = 100 \<and>
        vy (fposition (fp_particles (fp_update 0 1 edge_field) ! 0)) = 10"
    unfolding v x y by (simp add: f Vec2_def)
  then show ?thesis using f by (simp add: Vec2_def)
qed

section \<open>Floating particles: the proximity graph\<close>

lemma fp_edge_row_step:
  "j < length (fp_particles s) \<Longrightarrow>
   fp_edge_row s i j =
     (if distance (fposition (fp_particles s ! i)) (fposition (fp_particles s ! j))
           < fp_connectionDistance (fp_opts s)
      then [(i, j, 1 - distance (fposition (fp_particles s ! i)) (fposition (fp_particles s ! j))
                        / fp_connectionDistance (fp_opts s))]
      else []) @ fp_edge_row s i (Suc j)"
  by (simp add: fp_edge_row_def upt_conv_Cons)

lemma fp_edge_row_done: "\<not> j < length (fp_particles s) \<Longrightarrow> fp_edge_row s i j = []"
  by (simp add: fp_edge_row_def)

lemma fp_segment_triple:
  "fp_segment s (i, j, alpha) =
     [(vx (fposition (fp_particles s ! i)) / fp_width s) * 2 - 1,
      (vy (fposition (fp_particles s ! i)) / fp_height s) * 2 - 1,
      alpha,
      (vx (fposition (fp_particles s ! j)) / fp_width s) * 2 - 1,
      (vy (fposition (fp_particles s ! j)) / fp_height s) * 2 - 1,
      alpha]"
  by (simp add: fp_segment_def)

lemma fp_inner_loop_edges:
  "fp_inner_loop s i j lineData = lineData @ concat (map (fp_segment s) (fp_edge_row s i j))"
proof (induction s i j lineData rule: fp_inner_loop.induct)
  case (1 s i j lineData)
  show ?case
  proof (cases "j < length (fp_particles s)")
    case False
    then show ?thesis by (subst fp_inner_loop.simps) (simp add: fp_edge_row_done)
  next
    case True
    show ?thesis
    proof (cases "distance (fposition (fp_particles s ! i)) (fposition (fp_particles s ! j))
                    < fp_connectionDistance (fp_opts s)")
      case close: True
      show ?thesis
        apply (subst fp_inner_loop.simps)
        apply (subst fp_edge_row_step [OF True])
        using True close 1(1) [OF True refl refl refl refl close refl refl refl refl refl]
        apply (simp add: Let_def fp_segment_triple)
        done
    next
      case far: False
      show ?thesis
        apply (subst fp_inner_loop.simps)
        apply (subst fp_edge_row_step [OF True])
        using True far 1(2) [OF True refl refl refl refl far]
        apply (simp add: Let_def)
        done
    qed
  qed
qed

lemma fp_outer_loop_edges:
  "fp_outer_loop s i lineData =
     lineData @ concat (map (fp_segment s)
        (concat (map (\<lambda>i. fp_edge_row s i (Suc i)) [i ..< length (fp_particles s)])))"
proof (induction s i lineData rule: fp_outer_loop.induct)
  case (1 s i lineData)
  show ?case
  proof (cases "i < length (fp_particles s)")
    case False
    then show ?thesis by (subst fp_outer_loop.simps) simp
  next
    case True
    show ?thesis
      apply (subst fp_outer_loop.simps)
      using True 1 [OF True]
      apply (simp add: fp_inner_loop_edges upt_conv_Cons)
      done
  qed
qed

lemma fp_lineData_connections:
  "fp_lineData s = concat (map (fp_segment s) (fp_connections s))"
  by (simp add: fp_lineData_def fp_connections_def fp_outer_loop_edges)

lemma fp_connections_mem:
  "(i, j, a) \<in> set (fp_connections s) \<longleftrightarrow>
     i < j \<and> j < length (fp_particles s) \<and>
     distance (fposition (fp_particles s ! i)) (fposition (fp_particles s ! j))
       < fp_connectionDistance (fp_opts s) \<and>
     a = 1 - distance (fposition (fp_particles s ! i)) (fposition (fp_particles s ! j))
             / fp_connectionDistance (fp_opts s)"
  by (auto simp: fp_connections_def fp_edge_row_def split: if_splits)

lemma fp_segments_length: "length (concat (map (fp_segment s) es)) = 6 * length es"
  by (induction es) (auto simp: fp_segment_def)

lemma fp_render_unfold:
  assumes "fp_particleProgram s = Some pp" "fp_particleBuffer s = Some pb"
    "fp_lineProgram s = Some lp" "fp_lineBuffer s = Some lb" "fp_showConnections (fp_opts s)"
  shows "log (fp_render s h) =
     log h @ UseProgram lp #
       (if fp_lineData s = [] then []
        else [BindBuffer lb, BufferData (fp_lineData s),
              VertexAttribPointer ''a_position'' 2 12 0,
              VertexAttribPointer ''a_alpha'' 1 12 8,
              UniformColor ''u_color'' (fp_color (fp_opts s)),
              DrawArrays LINES 0 (length (fp_lineData s) div 3)]) @
       [UseProgram pp, BindBuffer pb,
        BufferData (concat (map (fp_vertex s) (fp_particles s))),
        VertexAttribPointer ''a_position'' 2 12 0,
        VertexAttribPointer ''a_size'' 1 12 8,
        UniformColor ''u_color'' (fp_color (fp_opts s)),
        DrawArrays POINTS 0 (length (fp_particles s))]"
  using assms
  by (simp add: fp_render_def fp_renderConnections_def fp_renderParticles_def Let_def
        emit_def emits_def)

text \<open>
  C2.  A \<open>render\<close> of an initialised field that shows its connections computes the
  proximity graph and draws it: after \<open>useProgram\<close> on the line program it uploads,
  for the edges of the graph in their order, the segments of six numbers each, and
  draws two vertices for each edge, before it draws the particles; when the graph
  has no edge it uploads and draws no line.  The \<open>lineData\<close> that
  \<open>renderConnections\<close> collects is the drawing of the proximity graph, segment by
  segment.  For indices \<open>i < j\<close> of two particles the graph has an edge from \<open>i\<close> to
  \<open>j\<close> if and only if their Euclidean distance is strictly below
  \<open>connectionDistance\<close>, and the weight of that edge is
  \<open>1 - distance / connectionDistance\<close>.
\<close>

theorem C2_proximity_graph:
  "(fp_particleProgram s = Some pp \<and> fp_particleBuffer s = Some pb \<and>
    fp_lineProgram s = Some lp \<and> fp_lineBuffer s = Some lb \<and> fp_showConnections (fp_opts s) \<longrightarrow>
      log (fp_render s g) =
        log g @ UseProgram lp #
          (if fp_connections s = [] then []
           else [BindBuffer lb, BufferData (concat (map (fp_segment s) (fp_connections s))),
                 VertexAttribPointer ''a_position'' 2 12 0,
                 VertexAttribPointer ''a_alpha'' 1 12 8,
                 UniformColor ''u_color'' (fp_color (fp_opts s)),
                 DrawArrays LINES 0 (2 * length (fp_connections s))]) @
          [UseProgram pp, BindBuffer pb,
           BufferData (concat (map (fp_vertex s) (fp_particles s))),
           VertexAttribPointer ''a_position'' 2 12 0,
           VertexAttribPointer ''a_size'' 1 12 8,
           UniformColor ''u_color'' (fp_color (fp_opts s)),
           DrawArrays POINTS 0 (length (fp_particles s))]) \<and>
   fp_lineData s = concat (map (fp_segment s) (fp_connections s)) \<and>
   (i < j \<and> j < length (fp_particles s) \<longrightarrow>
      ((\<exists>a. (i, j, a) \<in> set (fp_connections s)) \<longleftrightarrow>
         distance (fposition (fp_particles s ! i)) (fposition (fp_particles s ! j))
           < fp_connectionDistance (fp_opts s)) \<and>
      (\<forall>a. (i, j, a) \<in> set (fp_connections s) \<longrightarrow>
         a = 1 - distance (fposition (fp_particles s ! i)) (fposition (fp_particles s ! j))
                 / fp_connectionDistance (fp_opts s)))"
proof -
  have len: "length (fp_lineData s) = 6 * length (fp_connections s)"
    by (simp add: fp_lineData_connections fp_segments_length)
  then have d: "length (fp_lineData s) div 3 = 2 * length (fp_connections s)" by simp
  from len have e: "fp_lineData s = [] \<longleftrightarrow> fp_connections s = []"
    by (metis length_0_conv mult_is_0 zero_neq_numeral)
  have r: "log (fp_render s g) =
        log g @ UseProgram lp #
          (if fp_connections s = [] then []
           else [BindBuffer lb, BufferData (concat (map (fp_segment s) (fp_connections s))),
                 VertexAttribPointer ''a_position'' 2 12 0,
                 VertexAttribPointer ''a_alpha'' 1 12 8,
                 UniformColor ''u_color'' (fp_color (fp_opts s)),
                 DrawArrays LINES 0 (2 * length (fp_connections s))]) @
          [UseProgram pp, BindBuffer pb,
           BufferData (concat (map (fp_vertex s) (fp_particles s))),
           VertexAttribPointer ''a_position'' 2 12 0,
           VertexAttribPointer ''a_size'' 1 12 8,
           UniformColor ''u_color'' (fp_color (fp_opts s)),
           DrawArrays POINTS 0 (length (fp_particles s))]"
    if "fp_particleProgram s = Some pp" "fp_particleBuffer s = Some pb"
      "fp_lineProgram s = Some lp" "fp_lineBuffer s = Some lb" "fp_showConnections (fp_opts s)"
    unfolding fp_render_unfold [OF that] d e
    by (simp add: fp_lineData_connections)
  show ?thesis
    using r by (simp add: fp_lineData_connections fp_connections_mem)
qed

lemma two_field_distance:
  "distance (fposition (fp_particles two_field ! 0)) (fposition (fp_particles two_field ! 1)) = 5"
proof -
  have "sqrt 25 = 5" by (rule real_sqrt_unique) simp_all
  then show ?thesis by (simp add: two_field_def distance_def Vec2_def)
qed

theorem C2_scenario_witness:
  "(0 :: nat) < 1 \<and> 1 < length (fp_particles two_field) \<and>
   distance (fposition (fp_particles two_field ! 0)) (fposition (fp_particles two_field ! 1)) = 5 \<and>
   fp_connectionDistance (fp_opts two_field) = 150 \<and>
   (0, 1, 1 - 5 / 150) \<in> set (fp_connections two_field) \<and>
   length (fp_connections two_field) = 1 \<and>
   fp_lineData two_field = [-1, 0, 1 - 5 / 150, -9 / 10, 0, 1 - 5 / 150] \<and>
   fp_particleProgram two_field = Some 0 \<and> fp_particleBuffer two_field = Some 2 \<and>
   fp_lineProgram two_field = Some 1 \<and> fp_lineBuffer two_field = Some 3 \<and>
   fp_showConnections (fp_opts two_field) \<and>
   log (fp_render two_field quiet_env) =
     [UseProgram 1, BindBuffer 3,
      BufferData [-1, 0, 1 - 5 / 150, -9 / 10, 0, 1 - 5 / 150],
      VertexAttribPointer ''a_position'' 2 12 0,
      VertexAttribPointer ''a_alpha'' 1 12 8,
      UniformColor ''u_color'' ''#ffffff'',
      DrawArrays LINES 0 2,
      UseProgram 0, BindBuffer 2,
      BufferData [-1, 0, 2, -9 / 10, 0, 2],
      VertexAttribPointer ''a_position'' 2 12 0,
      VertexAttribPointer ''a_size'' 1 12 8,
      UniformColor ''u_color'' ''#ffffff'',
      DrawArrays POINTS 0 2]"
proof -
  have l: "(0 :: nat) < 1 \<and> 1 < length (fp_particles two_field)" by (simp add: two_field_def)
  have cd: "fp_connectionDistance (fp_opts two_field) = 150"
    by (simp add: two_field_def FloatingParticles_def fp_default_options_def)
  have pr: "fp_particleProgram two_field = Some 0 \<and> fp_particleBuffer two_field = Some 2 \<and>
            fp_lineProgram two_field = Some 1 \<and> fp_lineBuffer two_field = Some 3 \<and>
            fp_showConnections (fp_opts two_field)"
    by (simp add: two_field_def FloatingParticles_def fp_default_options_def)
  note t = C2_proximity_graph [of two_field 0 2 1 3 quiet_env 0 1]
  from t l two_field_distance cd obtain a where a: "(0, 1, a) \<in> set (fp_connections two_field)"
    by auto
  with t l two_field_distance cd have "a = 1 - 5 / 150" by auto
  with a have m: "(0, 1, 1 - 5 / 150) \<in> set (fp_connections two_field)" by simp
  have len: "length (fp_particles two_field) = Suc (Suc 0)" by (simp add: two_field_def)
  have c: "fp_connections two_field = [(0, 1, 1 - 5 / 150)]"
    using two_field_distance cd
    by (simp add: fp_connections_def fp_edge_row_def len upt_conv_Cons)
  have sg: "concat (map (fp_segment two_field) (fp_connections two_field)) =
            [-1, 0, 1 - 5 / 150, -9 / 10, 0, 1 - 5 / 150]"
    unfolding c by (simp add: fp_segment_triple two_field_def Vec2_def)
  have d: "fp_lineData two_field = [-1, 0, 1 - 5 / 150, -9 / 10, 0, 1 - 5 / 150]"
    using t sg by simp
  have vs: "concat (map (fp_vertex two_field) (fp_particles two_field)) = [-1, 0, 2, -9 / 10, 0, 2]"
    by (simp add: fp_vertex_def two_field_def Vec2_def)
  have col: "fp_color (fp_opts two_field) = ''#ffffff''"
    by (simp add: two_field_def FloatingParticles_def fp_default_options_def)
  have ne: "fp_connections two_field \<noteq> []" "length (fp_connections two_field) = 1"
    "length (fp_particles two_field) = 2" "log quiet_env = []"
    by (simp_all add: c len quiet_env_def)
  from t pr have "log (fp_render two_field quiet_env) =
        log quiet_env @ UseProgram 1 #
          (if fp_connections two_field = [] then []
           else [BindBuffer 3, BufferData (concat (map (fp_segment two_field) (fp_connections two_field))),
                 VertexAttribPointer ''a_position'' 2 12 0,
                 VertexAttribPointer ''a_alpha'' 1 12 8,
                 UniformColor ''u_color'' (fp_color (fp_opts two_field)),
                 DrawArrays LINES 0 (2 * length (fp_connections two_field))]) @
          [UseProgram 0, BindBuffer 2,
           BufferData (concat (map (fp_vertex two_field) (fp_particles two_field))),
           VertexAttribPointer ''a_position'' 2 12 0,
           VertexAttribPointer ''a_size'' 1 12 8,
           UniformColor ''u_color'' (fp_color (fp_opts two_field)),
           DrawArrays POINTS 0 (length (fp_particles two_field))]"
    by blast
  then have rl: "log (fp_render two_field quiet_env) =
     [UseProgram 1, BindBuffer 3,
      BufferData [-1, 0, 1 - 5 / 150, -9 / 10, 0, 1 - 5 / 150],
      VertexAttribPointer ''a_position'' 2 12 0,
      VertexAttribPointer ''a_alpha'' 1 12 8,
      UniformColor ''u_color'' ''#ffffff'',
      DrawArrays LINES 0 2,
      UseProgram 0, BindBuffer 2,
      BufferData [-1, 0, 2, -9 / 10, 0, 2],
      VertexAttribPointer ''a_position'' 2 12 0,
      VertexAttribPointer ''a_size'' 1 12 8,
      UniformColor ''u_color'' ''#ffffff'',
      DrawArrays POINTS 0 2]"
    using ne(1) unfolding sg vs col ne(2-4) by simp
  show ?thesis using l two_field_distance cd m c d pr rl by simp
qed

section \<open>The engine: what a frame writes to the log\<close>

lemma log_emit [simp]: "log (emit ev h) = log h @ [ev]"
  by (simp add: emit_def)

lemma log_emits [simp]: "log (emits evs h) = log h @ evs"
  by (simp add: emits_def)

lemma createParticle_log: "log (snd (createParticle options h)) = log h"
  by (simp add: createParticle_def random_range_def math_random_def split: prod.splits)

lemma ps_update_loop_log: "log (snd (ps_update_loop options dt i ps h)) = log h"
proof (induction options dt i ps h rule: ps_update_loop.induct)
  case (1 options dt i ps h)
  show ?case
  proof (cases "i < length ps")
    case False
    then show ?thesis by (subst ps_update_loop.simps) simp
  next
    case True
    show ?thesis
    proof (cases "life ((ps ! i)\<lparr>life := life (ps ! i) - dt\<rparr>) \<le> 0")
      case dead: True
      obtain q h' where c: "createParticle options h = (q, h')" by (cases "createParticle options h")
      have "log h' = log h" using createParticle_log [of options h] c by simp
      with 1(1) [OF True refl dead c [symmetric]] True dead c show ?thesis
        by (subst ps_update_loop.simps) (simp add: Let_def)
    next
      case live: False
      with 1(2) [OF True refl live] True show ?thesis
        by (subst ps_update_loop.simps) (simp add: Let_def)
    qed
  qed
qed

lemma ps_update_log: "ps_update time dt s h = (s', h') \<Longrightarrow> log h' = log h"
  using ps_update_loop_log [of "ps_opts s" dt 0 "ps_particles s" h]
  by (auto simp: ps_update_def split: prod.splits)

lemma effect_update_log: "log (effect_update r time dt h) = log h"
proof (cases "objects h r")
  case None
  then show ?thesis by (simp add: effect_update_def)
next
  case (Some eff)
  then show ?thesis
    by (cases eff) (auto simp: effect_update_def split: prod.splits dest: ps_update_log)
qed

lemma ps_render_log:
  "\<exists>gs. log (ps_render s h) = log h @ gs \<and> (\<forall>ev \<in> set gs. \<not> is_call ev)"
  by (cases "ps_program s"; cases "ps_positionBuffer s") (simp_all add: ps_render_def)

lemma fp_renderConnections_log:
  "\<exists>gs. log (fp_renderConnections s h) = log h @ gs \<and> (\<forall>ev \<in> set gs. \<not> is_call ev)"
  by (cases "fp_lineProgram s"; cases "fp_lineBuffer s")
     (simp_all add: fp_renderConnections_def Let_def)

lemma fp_renderParticles_log:
  "\<exists>gs. log (fp_renderParticles s h) = log h @ gs \<and> (\<forall>ev \<in> set gs. \<not> is_call ev)"
  by (cases "fp_particleProgram s"; cases "fp_particleBuffer s")
     (simp_all add: fp_renderParticles_def)

lemma fp_render_log:
  "\<exists>gs. log (fp_render s h) = log h @ gs \<and> (\<forall>ev \<in> set gs. \<not> is_call ev)"
proof -
  obtain g1 where g1: "log (fp_renderConnections s h) = log h @ g1" "\<forall>ev \<in> set g1. \<not> is_call ev"
    using fp_renderConnections_log by blast
  obtain g2 where g2: "log (fp_renderParticles s (fp_renderConnections s h)) =
      log (fp_renderConnections s h) @ g2" "\<forall>ev \<in> set g2. \<not> is_call ev"
    using fp_renderParticles_log by blast
  obtain g3 where g3: "log (fp_renderParticles s h) = log h @ g3" "\<forall>ev \<in> set g3. \<not> is_call ev"
    using fp_renderParticles_log by blast
  have "log (fp_render s h) = log h \<or> log (fp_render s h) = log h @ (g1 @ g2) \<or>
        log (fp_render s h) = log h @ g3"
    using g1(1) g2(1) g3(1) by (simp add: fp_render_def)
  then show ?thesis
  proof (elim disjE)
    assume "log (fp_render s h) = log h"
    then show ?thesis by (intro exI [of _ "[]"]) simp
  next
    assume "log (fp_render s h) = log h @ (g1 @ g2)"
    then show ?thesis using g1(2) g2(2) by (intro exI [of _ "g1 @ g2"]) auto
  next
    assume "log (fp_render s h) = log h @ g3"
    then show ?thesis using g3(2) by (intro exI [of _ g3]) auto
  qed
qed

lemma wv_render_log:
  "\<exists>gs. log (wv_render s h) = log h @ gs \<and> (\<forall>ev \<in> set gs. \<not> is_call ev)"
  by (cases "wv_program s"; cases "wv_quadBuffer s") (simp_all add: wv_render_def)

lemma gm_render_log:
  "\<exists>gs. log (gm_render s h) = log h @ gs \<and> (\<forall>ev \<in> set gs. \<not> is_call ev)"
  by (cases "gm_program s"; cases "gm_quadBuffer s") (simp_all add: gm_render_def Let_def)

lemma effect_render_log:
  "\<exists>gs. log (effect_render r h) = log h @ gs \<and> (\<forall>ev \<in> set gs. \<not> is_call ev)"
proof (cases "objects h r")
  case None
  then show ?thesis by (simp add: effect_render_def)
next
  case (Some eff)
  then show ?thesis
    using ps_render_log fp_render_log wv_render_log gm_render_log
    by (cases eff) (simp_all add: effect_render_def)
qed

lemma frame_effect_log:
  "\<exists>gs. log (frame_effect time dt r h) = log h @ visit time dt (r, gs) \<and>
        (\<forall>ev \<in> set gs. \<not> is_call ev)"
proof -
  let ?h1 = "effect_update r time dt (emit (EffectUpdate r time dt) h)"
  obtain gs where gs: "log (effect_render r (emit (EffectRender r) ?h1)) =
      log (emit (EffectRender r) ?h1) @ gs" "\<forall>ev \<in> set gs. \<not> is_call ev"
    using effect_render_log by blast
  have "log (frame_effect time dt r h) = log h @ visit time dt (r, gs)"
    using gs(1) by (simp add: frame_effect_def Let_def effect_update_log visit_def)
  with gs(2) show ?thesis by blast
qed

lemma frame_loop_log:
  "\<exists>gss. length gss = length rs \<and> (\<forall>gs \<in> set gss. \<forall>ev \<in> set gs. \<not> is_call ev) \<and>
         log (fold (frame_effect time dt) rs h) = log h @ concat (map (visit time dt) (zip rs gss))"
proof (induction rs arbitrary: h)
  case Nil
  show ?case by simp
next
  case (Cons r rs)
  obtain gs where gs: "log (frame_effect time dt r h) = log h @ visit time dt (r, gs)"
      "\<forall>ev \<in> set gs. \<not> is_call ev"
    using frame_effect_log by blast
  from Cons [of "frame_effect time dt r h"] obtain gss where gss:
    "length gss = length rs" "\<forall>gs \<in> set gss. \<forall>ev \<in> set gs. \<not> is_call ev"
    "log (fold (frame_effect time dt) rs (frame_effect time dt r h)) =
       log (frame_effect time dt r h) @ concat (map (visit time dt) (zip rs gss))" by blast
  show ?case
    apply (rule exI [of _ "gs # gss"])
    using gs gss by simp
qed

lemma calls_of_visits:
  "length gss = length rs \<Longrightarrow> (\<forall>gs \<in> set gss. \<forall>ev \<in> set gs. \<not> is_call ev) \<Longrightarrow>
   filter is_call (concat (map (visit time dt) (zip rs gss))) =
     concat (map (\<lambda>r. [EffectUpdate r time dt, EffectRender r]) rs)"
proof (induction rs arbitrary: gss)
  case Nil
  then show ?case by simp
next
  case (Cons r rs)
  then obtain gs gss' where g: "gss = gs # gss'" by (cases gss) auto
  with Cons.prems have "filter is_call gs = []" by (auto simp: filter_empty_conv)
  with Cons g show ?case by (simp add: visit_def)
qed

section \<open>What the effects leave alone\<close>

lemma env_kept_refl [simp]: "env_kept h h"
  unfolding env_kept_def
  by (rule exI [of _ "log h"], rule exI [of _ "next_handle h"], rule exI [of _ "randoms h"]) simp

lemma env_kept_trans: "env_kept h h1 \<Longrightarrow> env_kept h1 h2 \<Longrightarrow> env_kept h h2"
  unfolding env_kept_def by (elim exE) (simp, blast)

lemma env_kept_emit [simp]: "env_kept h (emit ev h)"
  unfolding env_kept_def emit_def
  by (rule exI [of _ "log h @ [ev]"], rule exI [of _ "next_handle h"], rule exI [of _ "randoms h"]) simp

lemma env_kept_emits [simp]: "env_kept h (emits evs h)"
  unfolding env_kept_def emits_def
  by (rule exI [of _ "log h @ evs"], rule exI [of _ "next_handle h"], rule exI [of _ "randoms h"]) simp

lemma env_kept_math_random: "math_random h = (u, h') \<Longrightarrow> env_kept h h'"
  unfolding env_kept_def math_random_def
  by (rule exI [of _ "log h"], rule exI [of _ "next_handle h"],
      rule exI [of _ "\<lambda>n. randoms h (Suc n)"]) auto

lemma env_kept_random_range: "random_range lo hi h = (u, h') \<Longrightarrow> env_kept h h'"
  by (auto simp: random_range_def split: prod.splits dest: env_kept_math_random)

lemma env_kept_next_handle [simp]: "env_kept h (h\<lparr>next_handle := n\<rparr>)"
  unfolding env_kept_def
  by (rule exI [of _ "log h"], rule exI [of _ n], rule exI [of _ "randoms h"]) simp

lemma env_kept_fresh_handle [simp]: "env_kept h (emit ev (h\<lparr>next_handle := n\<rparr>))"
  by (rule env_kept_trans [OF env_kept_next_handle env_kept_emit])

lemma env_kept_createProgram: "createProgram h = (p, h') \<Longrightarrow> env_kept h h'"
  by (cases "link_ok h") (auto simp: createProgram_def)

lemma env_kept_createBuffer: "createBuffer h = (p, h') \<Longrightarrow> env_kept h h'"
  by (auto simp: createBuffer_def)

lemma env_kept_createQuad: "createQuad h = (p, h') \<Longrightarrow> env_kept h h'"
  by (simp add: createQuad_def env_kept_createBuffer)

lemma env_kept_createParticle: "createParticle options h = (p, h') \<Longrightarrow> env_kept h h'"
proof -
  assume a: "createParticle options h = (p, h')"
  obtain a1 h1 where 1: "random_range 0 (pi * 2) h = (a1, h1)" by (cases "random_range 0 (pi * 2) h")
  obtain a2 h2 where 2: "random_range 0 (ps_emitterRadius options) h1 = (a2, h2)"
    by (cases "random_range 0 (ps_emitterRadius options) h1")
  obtain a3 h3 where 3: "random_range (ps_speed options * 0.5) (ps_speed options * 1.5) h2 = (a3, h3)"
    by (cases "random_range (ps_speed options * 0.5) (ps_speed options * 1.5) h2")
  obtain a4 h4 where 4: "random_range (ps_size options * 0.5) (ps_size options * 1.5) h3 = (a4, h4)"
    by (cases "random_range (ps_size options * 0.5) (ps_size options * 1.5) h3")
  from a 1 2 3 4 have "h' = h4" by (simp add: createParticle_def)
  moreover have "env_kept h h4"
    using env_kept_random_range [OF 1] env_kept_random_range [OF 2]
      env_kept_random_range [OF 3] env_kept_random_range [OF 4]
    by (blast intro: env_kept_trans)
  ultimately show ?thesis by simp
qed

lemma env_kept_ps_init_loop: "ps_init_loop options i ps h = (ps', h') \<Longrightarrow> env_kept h h'"
proof (induction options i ps h rule: ps_init_loop.induct)
  case (1 options i ps h)
  show ?case
  proof (cases "real i < ps_count options")
    case False
    with 1(2) show ?thesis by (subst (asm) ps_init_loop.simps) simp
  next
    case True
    obtain p h1 where c: "createParticle options h = (p, h1)" by (cases "createParticle options h")
    with 1(2) True have "ps_init_loop options (Suc i) (ps @ [p]) h1 = (ps', h')"
      by (subst (asm) ps_init_loop.simps) simp
    from 1(1) [OF True c [symmetric] this] env_kept_createParticle [OF c]
    show ?thesis by (blast intro: env_kept_trans)
  qed
qed

lemma env_kept_grow_particles: "grow_particles options n ps h = (ps', h') \<Longrightarrow> env_kept h h'"
proof (induction options n ps h rule: grow_particles.induct)
  case (1 options n ps h)
  show ?case
  proof (cases "real (length ps) < n")
    case False
    with 1(2) show ?thesis by (subst (asm) grow_particles.simps) simp
  next
    case True
    obtain p h1 where c: "createParticle options h = (p, h1)" by (cases "createParticle options h")
    with 1(2) True have "grow_particles options n (ps @ [p]) h1 = (ps', h')"
      by (subst (asm) grow_particles.simps) simp
    from 1(1) [OF True c [symmetric] this] env_kept_createParticle [OF c]
    show ?thesis by (blast intro: env_kept_trans)
  qed
qed

lemma env_kept_ps_update_loop:
  "ps_update_loop options dt i ps h = (ps', h') \<Longrightarrow> env_kept h h'"
proof (induction options dt i ps h rule: ps_update_loop.induct)
  case (1 options dt i ps h)
  show ?case
  proof (cases "i < length ps")
    case False
    with 1(3) show ?thesis by (subst (asm) ps_update_loop.simps) simp
  next
    case True
    show ?thesis
    proof (cases "life ((ps ! i)\<lparr>life := life (ps ! i) - dt\<rparr>) \<le> 0")
      case dead: True
      obtain q h1 where c: "createParticle options h = (q, h1)" by (cases "createParticle options h")
      with 1(3) True dead have "ps_update_loop options dt (Suc i) (ps[i := q]) h1 = (ps', h')"
        by (subst (asm) ps_update_loop.simps) (simp add: Let_def)
      from 1(1) [OF True refl dead c [symmetric] this] env_kept_createParticle [OF c]
      show ?thesis by (blast intro: env_kept_trans)
    next
      case live: False
      with 1(3) True have "ps_update_loop options dt (Suc i)
          (ps[i := ps_step options dt ((ps ! i)\<lparr>life := life (ps ! i) - dt\<rparr>)]) h = (ps', h')"
        by (subst (asm) ps_update_loop.simps) (simp add: Let_def)
      from 1(2) [OF True refl live this] show ?thesis .
    qed
  qed
qed

lemma env_kept_ps_init: "ps_init s h = (s', h') \<Longrightarrow> env_kept h h'"
proof -
  assume a: "ps_init s h = (s', h')"
  obtain prog h1 where 1: "createProgram h = (prog, h1)" by (cases "createProgram h")
  obtain buf h2 where 2: "createBuffer h1 = (buf, h2)" by (cases "createBuffer h1")
  obtain ps h3 where 3: "ps_init_loop (ps_opts s) 0 [] h2 = (ps, h3)"
    by (cases "ps_init_loop (ps_opts s) 0 [] h2")
  from a 1 2 3 have "h' = h3" by (simp add: ps_init_def ps_initParticles_def)
  moreover have "env_kept h h3"
    using env_kept_createProgram [OF 1] env_kept_createBuffer [OF 2] env_kept_ps_init_loop [OF 3]
    by (blast intro: env_kept_trans)
  ultimately show ?thesis by simp
qed

lemma env_kept_ps_update: "ps_update time dt s h = (s', h') \<Longrightarrow> env_kept h h'"
  by (auto simp: ps_update_def split: prod.splits dest: env_kept_ps_update_loop)

lemma env_kept_ps_render [simp]: "env_kept h (ps_render s h)"
  by (simp add: ps_render_def split: option.splits)

lemma env_kept_ps_destroy: "ps_destroy s h = (s', h') \<Longrightarrow> env_kept h h'"
  by (auto simp: ps_destroy_def Let_def split: option.splits prod.splits
           intro: env_kept_trans [OF env_kept_emit env_kept_emit])

lemma env_kept_setCount: "setCount n s h = (err, s', h') \<Longrightarrow> env_kept h h'"
  by (auto simp: setCount_def Let_def split: prod.splits if_splits dest: env_kept_grow_particles)

lemma env_kept_fp_new_particle: "fp_new_particle s h = (p, h') \<Longrightarrow> env_kept h h'"
proof -
  assume a: "fp_new_particle s h = (p, h')"
  obtain a1 h1 where 1: "random_range 0 (fp_width s) h = (a1, h1)" by (cases "random_range 0 (fp_width s) h")
  obtain a2 h2 where 2: "random_range 0 (fp_height s) h1 = (a2, h2)"
    by (cases "random_range 0 (fp_height s) h1")
  obtain a3 h3 where 3: "random_range (- fp_speed (fp_opts s)) (fp_speed (fp_opts s)) h2 = (a3, h3)"
    by (cases "random_range (- fp_speed (fp_opts s)) (fp_speed (fp_opts s)) h2")
  obtain a4 h4 where 4: "random_range (- fp_speed (fp_opts s)) (fp_speed (fp_opts s)) h3 = (a4, h4)"
    by (cases "random_range (- fp_speed (fp_opts s)) (fp_speed (fp_opts s)) h3")
  obtain a5 h5 where 5: "random_range (fp_size (fp_opts s) * 0.5) (fp_size (fp_opts s) * 1.5) h4 = (a5, h5)"
    by (cases "random_range (fp_size (fp_opts s) * 0.5) (fp_size (fp_opts s) * 1.5) h4")
  from a 1 2 3 4 5 have "h' = h5" by (simp add: fp_new_particle_def)
  moreover have "env_kept h h5"
    using env_kept_random_range [OF 1] env_kept_random_range [OF 2]
      env_kept_random_range [OF 3] env_kept_random_range [OF 4] env_kept_random_range [OF 5]
    by (blast intro: env_kept_trans)
  ultimately show ?thesis by simp
qed

lemma env_kept_fp_init_loop: "fp_init_loop s i ps h = (ps', h') \<Longrightarrow> env_kept h h'"
proof (induction s i ps h rule: fp_init_loop.induct)
  case (1 s i ps h)
  show ?case
  proof (cases "real i < fp_count (fp_opts s)")
    case False
    with 1(2) show ?thesis by (subst (asm) fp_init_loop.simps) simp
  next
    case True
    obtain p h1 where c: "fp_new_particle s h = (p, h1)" by (cases "fp_new_particle s h")
    with 1(2) True have "fp_init_loop s (Suc i) (ps @ [p]) h1 = (ps', h')"
      by (subst (asm) fp_init_loop.simps) simp
    from 1(1) [OF True c [symmetric] this] env_kept_fp_new_particle [OF c]
    show ?thesis by (blast intro: env_kept_trans)
  qed
qed

lemma env_kept_fp_initParticles: "fp_initParticles s h = (s', h') \<Longrightarrow> env_kept h h'"
  by (auto simp: fp_initParticles_def split: prod.splits dest: env_kept_fp_init_loop)

lemma env_kept_fp_init: "fp_init s h = (s', h') \<Longrightarrow> env_kept h h'"
proof -
  assume a: "fp_init s h = (s', h')"
  obtain p1 h1 where 1: "createProgram h = (p1, h1)" by (cases "createProgram h")
  obtain p2 h2 where 2: "createProgram h1 = (p2, h2)" by (cases "createProgram h1")
  obtain b1 h3 where 3: "createBuffer h2 = (b1, h3)" by (cases "createBuffer h2")
  obtain b2 h4 where 4: "createBuffer h3 = (b2, h4)" by (cases "createBuffer h3")
  from a 1 2 3 4 have "fp_initParticles (s\<lparr>fp_particleProgram := p1, fp_lineProgram := p2,
       fp_particleBuffer := b1, fp_lineBuffer := b2\<rparr>) h4 = (s', h')"
    by (simp add: fp_init_def)
  from env_kept_fp_initParticles [OF this] env_kept_createProgram [OF 1] env_kept_createProgram [OF 2]
    env_kept_createBuffer [OF 3] env_kept_createBuffer [OF 4]
  show ?thesis by (blast intro: env_kept_trans)
qed

lemma env_kept_fp_renderConnections [simp]: "env_kept h (fp_renderConnections s h)"
  by (auto simp: fp_renderConnections_def Let_def split: option.splits
           intro: env_kept_trans [OF env_kept_emit env_kept_emits])

lemma env_kept_fp_renderParticles [simp]: "env_kept h (fp_renderParticles s h)"
  by (simp add: fp_renderParticles_def split: option.splits)

lemma env_kept_fp_render [simp]: "env_kept h (fp_render s h)"
  by (auto simp: fp_render_def
           intro: env_kept_trans [OF env_kept_fp_renderConnections env_kept_fp_renderParticles])

lemma env_kept_fp_resize: "fp_resize w hh s h = (s', h') \<Longrightarrow> env_kept h h'"
  by (auto simp: fp_resize_def Let_def split: if_splits dest: env_kept_fp_initParticles)

lemma env_kept_fp_destroy: "fp_destroy s h = (s', h') \<Longrightarrow> env_kept h h'"
proof -
  assume a: "fp_destroy s h = (s', h')"
  define st1 where "st1 = (case fp_particleProgram s of
       Some prog \<Rightarrow> (s\<lparr>fp_particleProgram := None\<rparr>, emit (DeleteProgram prog) h) | None \<Rightarrow> (s, h))"
  define st2 where "st2 = (case fp_lineProgram (fst st1) of
       Some prog \<Rightarrow> ((fst st1)\<lparr>fp_lineProgram := None\<rparr>, emit (DeleteProgram prog) (snd st1))
     | None \<Rightarrow> (fst st1, snd st1))"
  define st3 where "st3 = (case fp_particleBuffer (fst st2) of
       Some buf \<Rightarrow> ((fst st2)\<lparr>fp_particleBuffer := None\<rparr>, emit (DeleteBuffer buf) (snd st2))
     | None \<Rightarrow> (fst st2, snd st2))"
  define st4 where "st4 = (case fp_lineBuffer (fst st3) of
       Some buf \<Rightarrow> ((fst st3)\<lparr>fp_lineBuffer := None\<rparr>, emit (DeleteBuffer buf) (snd st3))
     | None \<Rightarrow> (fst st3, snd st3))"
  have "fp_destroy s h = st4"
    by (simp add: fp_destroy_def st1_def st2_def st3_def st4_def Let_def split: prod.splits option.splits)
  with a have e: "h' = snd st4" by simp
  have 1: "env_kept h (snd st1)" by (simp add: st1_def split: option.splits)
  have 2: "env_kept (snd st1) (snd st2)" by (simp add: st2_def split: option.splits)
  have 3: "env_kept (snd st2) (snd st3)" by (simp add: st3_def split: option.splits)
  have 4: "env_kept (snd st3) (snd st4)" by (simp add: st4_def split: option.splits)
  from 1 2 3 4 show ?thesis unfolding e by (blast intro: env_kept_trans)
qed

lemma env_kept_wv_init: "wv_init s h = (s', h') \<Longrightarrow> env_kept h h'"
  by (auto simp: wv_init_def split: prod.splits
           dest!: env_kept_createProgram env_kept_createQuad intro: env_kept_trans)

lemma env_kept_wv_render [simp]: "env_kept h (wv_render s h)"
  by (simp add: wv_render_def split: option.splits)

lemma env_kept_wv_destroy: "wv_destroy s h = (s', h') \<Longrightarrow> env_kept h h'"
  by (auto simp: wv_destroy_def Let_def split: option.splits prod.splits
           intro: env_kept_trans [OF env_kept_emit env_kept_emit])

lemma env_kept_gm_init: "gm_init s h = (s', h') \<Longrightarrow> env_kept h h'"
  by (auto simp: gm_init_def split: prod.splits
           dest!: env_kept_createProgram env_kept_createQuad intro: env_kept_trans)

lemma env_kept_gm_render [simp]: "env_kept h (gm_render s h)"
  by (simp add: gm_render_def Let_def split: option.splits)

lemma env_kept_gm_destroy: "gm_destroy s h = (s', h') \<Longrightarrow> env_kept h h'"
  by (auto simp: gm_destroy_def Let_def split: option.splits prod.splits
           intro: env_kept_trans [OF env_kept_emit env_kept_emit])

lemma host_kept_refl [simp]: "host_kept h h"
  unfolding host_kept_def
  by (rule exI [of _ "log h"], rule exI [of _ "next_handle h"], rule exI [of _ "randoms h"],
      rule exI [of _ "objects h"]) simp

lemma host_kept_trans [trans]: "host_kept h h1 \<Longrightarrow> host_kept h1 h2 \<Longrightarrow> host_kept h h2"
  unfolding host_kept_def by (elim exE) (simp, blast)

lemma host_kept_env: "env_kept h h' \<Longrightarrow> host_kept h h'"
  unfolding host_kept_def env_kept_def
  by (elim exE, rule_tac x = l in exI, rule_tac x = n in exI, rule_tac x = rs in exI,
      rule_tac x = "objects h" in exI) simp

lemma host_kept_objects: "host_kept h h' \<Longrightarrow> host_kept h (h'\<lparr>objects := ob\<rparr>)"
  unfolding host_kept_def
  by (elim exE, rule_tac x = l in exI, rule_tac x = n in exI, rule_tac x = rs in exI,
      rule_tac x = ob in exI) simp

lemma host_kept_env_objects: "env_kept h h' \<Longrightarrow> host_kept h (h'\<lparr>objects := ob\<rparr>)"
  by (rule host_kept_objects [OF host_kept_env])

lemma host_kept_objects_self [simp]: "host_kept h (h\<lparr>objects := ob\<rparr>)"
  by (rule host_kept_objects [OF host_kept_refl])

lemma host_kept_fields:
  assumes "host_kept h h'"
  shows "resize_listeners h' = resize_listeners h" "next_closure h' = next_closure h"
    "frame_callbacks h' = frame_callbacks h" "next_frame h' = next_frame h"
    "clock h' = clock h" "link_ok h' = link_ok h" "date_now h' = date_now h"
  using assms unfolding host_kept_def by auto

lemma host_kept_effect_init: "host_kept h (effect_init r h)"
proof (cases "objects h r")
  case None
  then show ?thesis by (simp add: effect_init_def)
next
  case (Some eff)
  then show ?thesis
    by (cases eff)
       (auto simp: effect_init_def split: prod.splits
          intro!: host_kept_env_objects
          dest: env_kept_ps_init env_kept_fp_init env_kept_wv_init env_kept_gm_init)
qed

lemma host_kept_effect_update: "host_kept h (effect_update r time dt h)"
proof (cases "objects h r")
  case None
  then show ?thesis by (simp add: effect_update_def)
next
  case (Some eff)
  then show ?thesis
    by (cases eff)
       (auto simp: effect_update_def split: prod.splits
          intro!: host_kept_env_objects dest: env_kept_ps_update)
qed

lemma host_kept_effect_render: "host_kept h (effect_render r h)"
proof (cases "objects h r")
  case None
  then show ?thesis by (simp add: effect_render_def)
next
  case (Some eff)
  then show ?thesis
    by (cases eff) (auto simp: effect_render_def intro!: host_kept_env)
qed

lemma host_kept_effect_resize: "host_kept h (effect_resize w hh r h)"
proof (cases "objects h r")
  case None
  then show ?thesis by (simp add: effect_resize_def)
next
  case (Some eff)
  then show ?thesis
    by (cases eff)
       (auto simp: effect_resize_def split: prod.splits
          intro!: host_kept_env_objects dest: env_kept_fp_resize)
qed

lemma host_kept_effect_destroy: "host_kept h (effect_destroy r h)"
proof (cases "objects h r")
  case None
  then show ?thesis by (simp add: effect_destroy_def)
next
  case (Some eff)
  then show ?thesis
    by (cases eff)
       (auto simp: effect_destroy_def split: prod.splits
          intro!: host_kept_env_objects
          dest: env_kept_ps_destroy env_kept_fp_destroy env_kept_wv_destroy env_kept_gm_destroy)
qed

lemma host_kept_fold:
  "(\<And>r h. host_kept h (f r h)) \<Longrightarrow> host_kept h (fold f rs h)"
proof (induction rs arbitrary: h)
  case Nil
  show ?case by simp
next
  case (Cons r rs)
  from Cons.prems have "host_kept h (f r h)" .
  moreover have "host_kept (f r h) (fold f rs (f r h))" by (rule Cons.IH) (rule Cons.prems)
  ultimately show ?case by (simp add: host_kept_trans)
qed

lemma host_kept_emit [simp]: "host_kept h (emit ev h)"
  by (rule host_kept_env) simp

lemma host_kept_frame_effect: "host_kept h (frame_effect time dt r h)"
proof -
  let ?h1 = "emit (EffectUpdate r time dt) h"
  let ?h2 = "effect_update r time dt ?h1"
  let ?h3 = "emit (EffectRender r) ?h2"
  have "host_kept h ?h1" by simp
  also have "host_kept ?h1 ?h2" by (rule host_kept_effect_update)
  also have "host_kept ?h2 ?h3" by simp
  also have "host_kept ?h3 (effect_render r ?h3)" by (rule host_kept_effect_render)
  finally show ?thesis by (simp add: frame_effect_def Let_def)
qed

section \<open>The engine: its methods, field by field\<close>

lemma resize_ret: "fst (resize w hh e h) = This"
  by (simp add: resize_def Let_def)

lemma resize_engine:
  "fst (snd (resize w hh e h)) =
     (if gl e = None then e
      else e\<lparr>canvas := (canvas e)\<lparr>
             canvas_width := (case w of Some a \<Rightarrow> a | None \<Rightarrow> clientWidth (canvas e)) * dpr e,
             canvas_height := (case hh of Some a \<Rightarrow> a | None \<Rightarrow> clientHeight (canvas e)) * dpr e,
             style_width := Some (case w of Some a \<Rightarrow> a | None \<Rightarrow> clientWidth (canvas e)),
             style_height := Some (case hh of Some a \<Rightarrow> a | None \<Rightarrow> clientHeight (canvas e))\<rparr>\<rparr>)"
  by (simp add: resize_def Let_def)

lemma resize_host_kept: "host_kept h (snd (snd (resize w hh e h)))"
proof (cases "gl e = None")
  case True
  then show ?thesis by (simp add: resize_def)
next
  case False
  let ?w = "case w of Some a \<Rightarrow> a | None \<Rightarrow> clientWidth (canvas e)"
  let ?h = "case hh of Some a \<Rightarrow> a | None \<Rightarrow> clientHeight (canvas e)"
  let ?h1 = "emit (Viewport 0 0 (?w * dpr e) (?h * dpr e)) h"
  have "host_kept h ?h1" by simp
  also have "host_kept ?h1 (fold (effect_resize ?w ?h) (effects e) ?h1)"
    by (rule host_kept_fold) (rule host_kept_effect_resize)
  finally show ?thesis using False by (simp add: resize_def Let_def)
qed

lemma addEffect_ret: "fst (addEffect r e h) = This"
  by (simp add: addEffect_def Let_def)

lemma addEffect_engine:
  "fst (snd (addEffect r e h)) = (if gl e = None then e else e\<lparr>effects := effects e @ [r]\<rparr>)"
  by (simp add: addEffect_def Let_def)

lemma addEffect_host_kept: "host_kept h (snd (snd (addEffect r e h)))"
proof (cases "gl e = None")
  case True
  then show ?thesis by (simp add: addEffect_def)
next
  case False
  have "host_kept h (effect_init r h)" by (rule host_kept_effect_init)
  also have "host_kept (effect_init r h)
     (effect_resize (canvas_width (canvas e) / dpr e) (canvas_height (canvas e) / dpr e) r (effect_init r h))"
    by (rule host_kept_effect_resize)
  finally show ?thesis using False by (simp add: addEffect_def Let_def)
qed

lemma removeEffect_ret: "fst (removeEffect r e h) = This"
  by (simp add: removeEffect_def)

lemma removeEffect_engine:
  "fst (snd (removeEffect r e h)) =
     (if gl e \<noteq> None \<and> r \<in> set (effects e) then e\<lparr>effects := remove1 r (effects e)\<rparr> else e)"
  by (simp add: removeEffect_def)

lemma removeEffect_host_kept: "host_kept h (snd (snd (removeEffect r e h)))"
  by (simp add: removeEffect_def host_kept_effect_destroy)

lemma animate_idle: "\<not> isRunning e \<or> gl e = None \<Longrightarrow> animate e h = (e, h)"
  by (auto simp: animate_def)

lemma animate_engine:
  "isRunning e \<Longrightarrow> gl e \<noteq> None \<Longrightarrow>
   fst (animate e h) = e\<lparr>animationId := Some (next_frame h), lastTime := clock h\<rparr>"
  by (auto simp: animate_def requestAnimationFrame_def Let_def)

lemma animate_host:
  assumes "isRunning e" "gl e \<noteq> None"
  shows "snd (animate e h) =
     fold (frame_effect ((clock h - startTime e) / 1000) ((clock h - lastTime e) / 1000)) (effects e)
       (emit Clear (h\<lparr>frame_callbacks := frame_callbacks h @ [next_frame h],
                       next_frame := Suc (next_frame h)\<rparr>))"
  using assms by (auto simp: animate_def requestAnimationFrame_def Let_def)

lemma animate_host_fields:
  assumes "isRunning e" "gl e \<noteq> None"
  shows "frame_callbacks (snd (animate e h)) = frame_callbacks h @ [next_frame h]"
    "next_frame (snd (animate e h)) = Suc (next_frame h)"
    "resize_listeners (snd (animate e h)) = resize_listeners h"
    "next_closure (snd (animate e h)) = next_closure h"
proof -
  let ?h0 = "h\<lparr>frame_callbacks := frame_callbacks h @ [next_frame h],
                next_frame := Suc (next_frame h)\<rparr>"
  have "host_kept ?h0 (emit Clear ?h0)" by simp
  also have "host_kept (emit Clear ?h0) (snd (animate e h))"
    unfolding animate_host [OF assms] by (rule host_kept_fold) (rule host_kept_frame_effect)
  finally have kk: "host_kept ?h0 (snd (animate e h))" .
  show "frame_callbacks (snd (animate e h)) = frame_callbacks h @ [next_frame h]"
    "next_frame (snd (animate e h)) = Suc (next_frame h)"
    "resize_listeners (snd (animate e h)) = resize_listeners h"
    "next_closure (snd (animate e h)) = next_closure h"
    using host_kept_fields [OF kk] by simp_all
qed

lemma start_ret: "fst (start e h) = This"
  by (simp add: start_def Let_def split: prod.splits)

lemma start_running: "isRunning e \<Longrightarrow> start e h = (This, e, h)"
  by (simp add: start_def)

lemma start_snd:
  "\<not> isRunning e \<Longrightarrow>
   snd (start e h) = animate (e\<lparr>isRunning := True, startTime := clock h, lastTime := clock h\<rparr>) h"
  by (simp add: start_def Let_def split: prod.splits)

lemma stop_ret: "fst (stop e h) = This"
  by (simp add: stop_def Let_def split: option.splits)

lemma stop_idle: "\<not> isRunning e \<Longrightarrow> stop e h = (This, e, h)"
  by (simp add: stop_def)

lemma stop_engine:
  "fst (snd (stop e h)) =
     (if isRunning e then e\<lparr>isRunning := False, animationId := None\<rparr> else e)"
  by (cases "animationId e") (simp_all add: stop_def Let_def)

lemma stop_host:
  "snd (snd (stop e h)) =
     (if isRunning e
      then (case animationId e of Some i \<Rightarrow> cancelAnimationFrame i h | None \<Rightarrow> h)
      else h)"
  by (cases "animationId e") (simp_all add: stop_def Let_def)

lemma destroy_ret: "fst (destroy e h) = Undefined"
  by (simp add: destroy_def Let_def new_closure_def split: prod.splits)

lemma stop_keeps:
  "gl (fst (snd (stop e h))) = gl e" "effects (fst (snd (stop e h))) = effects e"
  "interactionManager (fst (snd (stop e h))) = interactionManager e"
  "canvas (fst (snd (stop e h))) = canvas e" "dpr (fst (snd (stop e h))) = dpr e"
  by (simp_all add: stop_engine)

lemma destroy_unfold:
  "destroy e h =
     (Undefined,
      (fst (snd (stop e h)))\<lparr>effects := [], interactionManager := None\<rparr>,
      (let h2 = (if gl e \<noteq> None then fold effect_destroy (effects e) (snd (snd (stop e h)))
                 else snd (snd (stop e h)))
       in h2\<lparr>next_closure := Suc (next_closure h2),
             resize_listeners := removeAll (next_closure h2) (resize_listeners h2)\<rparr>))"
proof -
  obtain x e1 h1 where s: "stop e h = (x, e1, h1)" by (cases "stop e h")
  then have k: "gl e1 = gl e" "effects e1 = effects e"
    using stop_keeps(1,2) [of e h] by simp_all
  have im: "(case interactionManager (e1\<lparr>effects := []\<rparr>) of
               Some im \<Rightarrow> e1\<lparr>effects := [], interactionManager := None\<rparr>
             | None \<Rightarrow> e1\<lparr>effects := []\<rparr>) = e1\<lparr>effects := [], interactionManager := None\<rparr>"
    by (cases "interactionManager e1") simp_all
  show ?thesis
    using im k
    by (simp add: destroy_def s Let_def new_closure_def removeEventListener_def)
qed

lemma destroy_engine:
  "fst (snd (destroy e h)) =
     (fst (snd (stop e h)))\<lparr>effects := [], interactionManager := None\<rparr>"
  by (simp add: destroy_unfold)

lemma destroy_host:
  "snd (snd (destroy e h)) =
     (let h2 = (if gl e \<noteq> None then fold effect_destroy (effects e) (snd (snd (stop e h)))
                else snd (snd (stop e h)))
      in h2\<lparr>next_closure := Suc (next_closure h2),
            resize_listeners := removeAll (next_closure h2) (resize_listeners h2)\<rparr>)"
  by (simp add: destroy_unfold)

section \<open>The engine: construction and the scenario\<close>

lemma VizFX_result:
  assumes "VizFX options h = Inr (e, h')"
  shows "gl e \<noteq> None" "effects e = []" "\<not> isRunning e" "animationId e = None"
    "startTime e = 0" "lastTime e = 0"
    "frame_callbacks h' = frame_callbacks h" "next_frame h' = next_frame h"
    "next_closure h' = Suc (next_closure h)" "clock h' = clock h"
    "resize_listeners h' =
       (if next_closure h \<in> set (resize_listeners h) then resize_listeners h
        else resize_listeners h @ [next_closure h])"
  using assms
  by (auto simp: VizFX_def resize_def Let_def new_closure_def addEventListener_def emit_def emits_def
           split: sum.splits if_splits)

lemma demo_constructed: "VizFX demo_options demo_host = Inr demo_constructed"
  by (simp add: demo_constructed_def VizFX_def demo_options_def demo_host_def Let_def
           split: prod.splits)

lemmas demo_constructed_facts =
  VizFX_result [of demo_options demo_host "fst demo_constructed" "snd demo_constructed",
                simplified, OF demo_constructed]

lemma perform_unfold:
  "perform (AddEffect r) s = snd (addEffect r (fst s) (snd s))"
  "perform (RemoveEffect r) s = snd (removeEffect r (fst s) (snd s))"
  "perform Start s = snd (start (fst s) (snd s))"
  "perform Stop s = snd (stop (fst s) (snd s))"
  "perform (Resize w hh) s = snd (resize w hh (fst s) (snd s))"
  "perform Destroy s = snd (destroy (fst s) (snd s))"
  "perform (Tick t) s = (fst s, (snd s)\<lparr>clock := t\<rparr>)"
  "perform (Frame i) s =
     (if i \<in> set (frame_callbacks (snd s))
      then animate (fst s) ((snd s)\<lparr>frame_callbacks := removeAll i (frame_callbacks (snd s))\<rparr>)
      else s)"
  by (cases s; simp)+

lemma animate_clock: "clock (snd (animate e h)) = clock h"
proof (cases "isRunning e \<and> gl e \<noteq> None")
  case False
  then show ?thesis using animate_idle [of e h] by auto
next
  case True
  let ?h0 = "h\<lparr>frame_callbacks := frame_callbacks h @ [next_frame h],
                next_frame := Suc (next_frame h)\<rparr>"
  have "host_kept ?h0 (emit Clear ?h0)" by simp
  also have "host_kept (emit Clear ?h0) (snd (animate e h))"
    using True by (simp add: animate_host) (rule host_kept_fold, rule host_kept_frame_effect)
  finally have "host_kept ?h0 (snd (animate e h))" .
  from host_kept_fields(5) [OF this] show ?thesis by simp
qed

lemma demo_running_facts:
  "isRunning (fst demo_running)" "gl (fst demo_running) \<noteq> None"
  "effects (fst demo_running) = [0, 1]" "startTime (fst demo_running) = 0"
  "lastTime (fst demo_running) = 0" "animationId (fst demo_running) = Some 0"
  "frame_callbacks (snd demo_running) = [0]" "next_frame (snd demo_running) = 1"
  "resize_listeners (snd demo_running) = [0]" "next_closure (snd demo_running) = 1"
  "clock (snd demo_running) = 16"
proof -
  note c = demo_constructed_facts
  have d: "frame_callbacks demo_host = []" "next_frame demo_host = 0" "next_closure demo_host = 0"
    "clock demo_host = 0" "resize_listeners demo_host = []"
    by (simp_all add: demo_host_def)
  define s1 where "s1 = perform (AddEffect 0) demo_constructed"
  define s2 where "s2 = perform (AddEffect 1) s1"
  define s3 where "s3 = perform Start s2"
  have r: "demo_running = perform (Tick 16) s3"
    by (simp add: demo_running_def run_def s1_def s2_def s3_def)
  have e1: "fst s1 = (fst demo_constructed)\<lparr>effects := [0]\<rparr>"
    using c(1,2) by (simp add: s1_def perform_unfold addEffect_engine)
  have h1: "host_kept (snd demo_constructed) (snd s1)"
    by (simp add: s1_def perform_unfold addEffect_host_kept)
  have e2: "fst s2 = (fst demo_constructed)\<lparr>effects := [0, 1]\<rparr>"
    using c(1) by (simp add: s2_def perform_unfold addEffect_engine e1)
  have "host_kept (snd s1) (snd s2)"
    by (simp add: s2_def perform_unfold addEffect_host_kept)
  with h1 have h2: "host_kept (snd demo_constructed) (snd s2)" by (rule host_kept_trans)
  note f2 = host_kept_fields [OF h2]
  let ?e = "(fst s2)\<lparr>isRunning := True, startTime := clock (snd s2), lastTime := clock (snd s2)\<rparr>"
  have s3: "s3 = animate ?e (snd s2)"
    using c(3) by (simp add: s3_def perform_unfold start_snd e2)
  have run: "isRunning ?e" "gl ?e \<noteq> None" using c(1) by (simp_all add: e2)
  have e3: "fst s3 = ?e\<lparr>animationId := Some (next_frame (snd s2)), lastTime := clock (snd s2)\<rparr>"
    unfolding s3 by (rule animate_engine [OF run])
  note f3 = animate_host_fields [OF run, of "snd s2", folded s3] animate_clock [of ?e "snd s2", folded s3]
  show "isRunning (fst demo_running)" "gl (fst demo_running) \<noteq> None"
    "effects (fst demo_running) = [0, 1]" "startTime (fst demo_running) = 0"
    "lastTime (fst demo_running) = 0" "animationId (fst demo_running) = Some 0"
    "frame_callbacks (snd demo_running) = [0]" "next_frame (snd demo_running) = 1"
    "resize_listeners (snd demo_running) = [0]" "next_closure (snd demo_running) = 1"
    "clock (snd demo_running) = 16"
    using c d f2 f3 by (simp_all add: r perform_unfold e3 e2)
qed

section \<open>The engine: the order of a frame\<close>

text \<open>
  C5.  Effects are registered by appending to the list of the engine.  When the
  host fires the pending frame callback of a running engine, the log grows by
  \<open>Clear\<close> first and then, for each registered effect in the order of the list, by the
  invocation of its \<open>update\<close> with the time and the time step of the frame, directly
  followed by the invocation of its \<open>render\<close> and the WebGL calls of that render:
  one interleaved pass.
\<close>

theorem C5_frame_visits_effects_in_order:
  "(gl e \<noteq> None \<longrightarrow> effects (fst (snd (addEffect r e h))) = effects e @ [r]) \<and>
   (isRunning e \<and> gl e \<noteq> None \<and> i \<in> set (frame_callbacks h) \<longrightarrow>
      effects (fst (perform (Frame i) (e, h))) = effects e \<and>
      (\<exists>gss. length gss = length (effects e) \<and>
             (\<forall>gs \<in> set gss. \<forall>ev \<in> set gs. \<not> is_call ev) \<and>
             log (snd (perform (Frame i) (e, h))) =
               log h @ Clear # concat (map (visit ((clock h - startTime e) / 1000)
                                                  ((clock h - lastTime e) / 1000))
                                           (zip (effects e) gss))) \<and>
      log (snd (perform (Frame i) (e, h))) ! length (log h) = Clear \<and>
      filter is_call (drop (length (log h)) (log (snd (perform (Frame i) (e, h))))) =
        concat (map (\<lambda>r. [EffectUpdate r ((clock h - startTime e) / 1000)
                                           ((clock h - lastTime e) / 1000),
                            EffectRender r]) (effects e)))"
proof (intro conjI impI)
  assume "gl e \<noteq> None"
  then show "effects (fst (snd (addEffect r e h))) = effects e @ [r]"
    by (simp add: addEffect_engine)
next
  assume a: "isRunning e \<and> gl e \<noteq> None \<and> i \<in> set (frame_callbacks h)"
  let ?T = "(clock h - startTime e) / 1000" and ?D = "(clock h - lastTime e) / 1000"
  let ?h0 = "h\<lparr>frame_callbacks := removeAll i (frame_callbacks h)\<rparr>"
  let ?h1 = "emit Clear (?h0\<lparr>frame_callbacks := frame_callbacks ?h0 @ [next_frame ?h0],
                               next_frame := Suc (next_frame ?h0)\<rparr>)"
  have p: "perform (Frame i) (e, h) = animate e ?h0" using a by simp
  have s: "snd (animate e ?h0) = fold (frame_effect ?T ?D) (effects e) ?h1"
    using a animate_host [of e ?h0] by simp
  from frame_loop_log [of "effects e" ?T ?D ?h1] obtain gss where gss:
    "length gss = length (effects e)" "\<forall>gs \<in> set gss. \<forall>ev \<in> set gs. \<not> is_call ev"
    "log (fold (frame_effect ?T ?D) (effects e) ?h1) =
       log ?h1 @ concat (map (visit ?T ?D) (zip (effects e) gss))" by blast
  have l: "log (snd (perform (Frame i) (e, h))) =
             log h @ Clear # concat (map (visit ?T ?D) (zip (effects e) gss))"
    unfolding p s gss(3) by simp
  show "effects (fst (perform (Frame i) (e, h))) = effects e"
    unfolding p using a by (simp add: animate_engine)
  show "\<exists>gss. length gss = length (effects e) \<and>
             (\<forall>gs \<in> set gss. \<forall>ev \<in> set gs. \<not> is_call ev) \<and>
             log (snd (perform (Frame i) (e, h))) =
               log h @ Clear # concat (map (visit ?T ?D) (zip (effects e) gss))"
    using gss(1,2) l by blast
  show "log (snd (perform (Frame i) (e, h))) ! length (log h) = Clear"
    unfolding l by simp
  show "filter is_call (drop (length (log h)) (log (snd (perform (Frame i) (e, h))))) =
        concat (map (\<lambda>r. [EffectUpdate r ?T ?D, EffectRender r]) (effects e))"
    unfolding l using calls_of_visits [OF gss(1) [symmetric, symmetric] gss(2), of ?T ?D]
    by simp
qed

theorem C5_witness:
  "gl (fst demo_constructed) \<noteq> None \<and>
   effects (fst (snd (addEffect 0 (fst demo_constructed) (snd demo_constructed)))) = [0] \<and>
   isRunning (fst demo_running) \<and> gl (fst demo_running) \<noteq> None \<and>
   0 \<in> set (frame_callbacks (snd demo_running)) \<and>
   log (snd (perform (Frame 0) (fst demo_running, snd demo_running)))
     ! length (log (snd demo_running)) = Clear \<and>
   filter is_call (drop (length (log (snd demo_running)))
                        (log (snd (perform (Frame 0) (fst demo_running, snd demo_running))))) =
     [EffectUpdate 0 (16 / 1000) (16 / 1000), EffectRender 0,
      EffectUpdate 1 (16 / 1000) (16 / 1000), EffectRender 1]"
proof -
  note a = C5_frame_visits_effects_in_order
             [of "fst demo_constructed" 0 "snd demo_constructed" 0, THEN conjunct1]
  note b = C5_frame_visits_effects_in_order
             [of "fst demo_running" 0 "snd demo_running" 0, THEN conjunct2, THEN mp]
  have pre: "isRunning (fst demo_running) \<and> gl (fst demo_running) \<noteq> None \<and>
             0 \<in> set (frame_callbacks (snd demo_running))"
    by (simp add: demo_running_facts)
  note b1 = b [OF pre, THEN conjunct2, THEN conjunct2]
  show ?thesis
    using a demo_constructed_facts(1,2) pre b1
    by (simp add: demo_running_facts)
qed

section \<open>The engine: return values\<close>

text \<open>
  C9 (as amended).  \<open>addEffect\<close>, \<open>removeEffect\<close>, \<open>start\<close>, \<open>stop\<close> and \<open>resize\<close>
  return the engine they are called on, on every path; \<open>destroy\<close> returns nothing.
\<close>

theorem C9_methods_return_this_but_destroy:
  "fst (addEffect r e h) = This \<and> fst (removeEffect r e h) = This \<and>
   fst (start e h) = This \<and> fst (stop e h) = This \<and> fst (resize w hh e h) = This \<and>
   fst (destroy e h) = Undefined"
  by (simp add: addEffect_ret removeEffect_ret start_ret stop_ret resize_ret destroy_ret)

theorem C9_destroy_counterexample:
  "fst (destroy (fst demo_constructed) (snd demo_constructed)) \<noteq> This"
  by (simp add: destroy_ret)

section \<open>The engine: the resize listener\<close>

lemma stop_host_kept_fields:
  "resize_listeners (snd (snd (stop e h))) = resize_listeners h"
  "next_closure (snd (snd (stop e h))) = next_closure h"
  "next_frame (snd (snd (stop e h))) = next_frame h"
  "log (snd (snd (stop e h))) = log h"
  "objects (snd (snd (stop e h))) = objects h"
  "frame_callbacks (snd (snd (stop e h))) =
     (if isRunning e then (case animationId e of Some i \<Rightarrow> removeAll i (frame_callbacks h)
                                               | None \<Rightarrow> frame_callbacks h)
      else frame_callbacks h)"
  by (simp_all add: stop_host cancelAnimationFrame_def split: option.splits)

lemma destroy_host_fields:
  "resize_listeners (snd (snd (destroy e h))) = removeAll (next_closure h) (resize_listeners h)"
  "next_closure (snd (snd (destroy e h))) = Suc (next_closure h)"
  "next_frame (snd (snd (destroy e h))) = next_frame h"
  "frame_callbacks (snd (snd (destroy e h))) = frame_callbacks (snd (snd (stop e h)))"
proof -
  let ?h1 = "snd (snd (stop e h))"
  let ?h2 = "if gl e \<noteq> None then fold effect_destroy (effects e) ?h1 else ?h1"
  have "host_kept ?h1 ?h2"
    by (simp add: host_kept_fold host_kept_effect_destroy)
  note k = host_kept_fields [OF this]
  show "resize_listeners (snd (snd (destroy e h))) = removeAll (next_closure h) (resize_listeners h)"
    "next_closure (snd (snd (destroy e h))) = Suc (next_closure h)"
    "next_frame (snd (snd (destroy e h))) = next_frame h"
    "frame_callbacks (snd (snd (destroy e h))) = frame_callbacks (snd (snd (stop e h)))"
    using k by (simp_all add: destroy_host Let_def stop_host_kept_fields)
qed

lemma destroy_keeps_listeners:
  "host_ok h \<Longrightarrow> resize_listeners (snd (snd (destroy e h))) = resize_listeners h"
  by (auto simp: destroy_host_fields host_ok_def)

text \<open>
  C8, on the code.  The constructor registers a new closure as \<open>resize\<close> listener of
  the window.  \<open>destroy\<close> passes another new closure to \<open>removeEventListener\<close>, which
  is not registered, so the listener of the constructor stays: on a host without
  listeners, the engine constructed and then destroyed leaves one listener behind.
\<close>

theorem C8_destroy_leaves_the_listener:
  "resize_listeners demo_host = [] \<and>
   resize_listeners (snd demo_constructed) = [0] \<and>
   resize_listeners (snd (snd (destroy (fst demo_constructed) (snd demo_constructed)))) = [0]"
proof -
  have d: "resize_listeners demo_host = []" "next_closure demo_host = 0"
    by (simp_all add: demo_host_def)
  have c: "resize_listeners (snd demo_constructed) = [0]" "next_closure (snd demo_constructed) = 1"
    using demo_constructed_facts(9,11) d by simp_all
  show ?thesis using d c by (simp add: destroy_host_fields)
qed

section \<open>The engine: calls that change nothing\<close>

lemma scheduled_same:
  "isRunning e' = isRunning e \<Longrightarrow> animationId e' = animationId e \<Longrightarrow>
   frame_callbacks h' = frame_callbacks h \<Longrightarrow> scheduled (e, h) \<Longrightarrow> scheduled (e', h')"
  by (simp add: scheduled_def)

lemma animate_scheduled: "frame_callbacks h = [] \<Longrightarrow> scheduled (animate e h)"
proof (cases "isRunning e \<and> gl e \<noteq> None")
  case False
  assume "frame_callbacks h = []"
  with False animate_idle [of e h] show ?thesis by (auto simp: scheduled_def)
next
  case True
  assume "frame_callbacks h = []"
  with True show ?thesis
    by (simp add: scheduled_def animate_engine animate_host_fields)
qed

lemma stop_scheduled: "scheduled (e, h) \<Longrightarrow> frame_callbacks (snd (snd (stop e h))) = [] \<or>
    (\<not> isRunning e \<and> frame_callbacks (snd (snd (stop e h))) = frame_callbacks h)"
  by (auto simp: scheduled_def stop_host_kept_fields split: option.splits)

lemma resize_scheduled: "scheduled s \<Longrightarrow> scheduled (snd (resize w hh (fst s) (snd s)))"
proof -
  assume a: "scheduled s"
  have "scheduled (fst (snd (resize w hh (fst s) (snd s))), snd (snd (resize w hh (fst s) (snd s))))"
  proof (rule scheduled_same [of _ "fst s" _ "snd s"])
    show "frame_callbacks (snd (snd (resize w hh (fst s) (snd s)))) = frame_callbacks (snd s)"
      by (rule host_kept_fields(3) [OF resize_host_kept])
  qed (use a in \<open>simp_all add: resize_engine\<close>)
  then show ?thesis by simp
qed

lemma window_resize_scheduled:
  "scheduled s \<Longrightarrow> scheduled (fold (\<lambda>c s. snd (resize None None (fst s) (snd s))) cs s)"
  by (induction cs arbitrary: s) (simp_all add: resize_scheduled)

lemma perform_scheduled: "scheduled s \<Longrightarrow> scheduled (perform a s)"
proof -
  assume inv: "scheduled s"
  obtain e h where s: "s = (e, h)" by (cases s)
  show ?thesis
  proof (cases a)
    case (AddEffect r)
    have "scheduled (fst (snd (addEffect r e h)), snd (snd (addEffect r e h)))"
    proof (rule scheduled_same [of _ e _ h])
      show "frame_callbacks (snd (snd (addEffect r e h))) = frame_callbacks h"
        by (rule host_kept_fields(3) [OF addEffect_host_kept])
    qed (use inv s in \<open>simp_all add: addEffect_engine\<close>)
    then show ?thesis by (simp add: AddEffect s)
  next
    case (RemoveEffect r)
    have "scheduled (fst (snd (removeEffect r e h)), snd (snd (removeEffect r e h)))"
    proof (rule scheduled_same [of _ e _ h])
      show "frame_callbacks (snd (snd (removeEffect r e h))) = frame_callbacks h"
        by (rule host_kept_fields(3) [OF removeEffect_host_kept])
    qed (use inv s in \<open>simp_all add: removeEffect_engine\<close>)
    then show ?thesis by (simp add: RemoveEffect s)
  next
    case Start
    show ?thesis
    proof (cases "isRunning e")
      case True
      with inv s Start show ?thesis by (simp add: start_running)
    next
      case False
      with inv s have "frame_callbacks h = []" by (auto simp: scheduled_def)
      from animate_scheduled [OF this] False show ?thesis by (simp add: Start s start_snd)
    qed
  next
    case Stop
    from stop_scheduled [of e h] inv s
    show ?thesis by (auto simp: Stop scheduled_def stop_engine)
  next
    case (Resize w hh)
    from resize_scheduled [OF inv] show ?thesis by (simp add: Resize s)
  next
    case Destroy
    from stop_scheduled [of e h] inv s
    show ?thesis
      by (auto simp: Destroy scheduled_def destroy_engine destroy_host_fields stop_engine)
  next
    case (Frame i)
    show ?thesis
    proof (cases "i \<in> set (frame_callbacks h)")
      case False
      with inv s Frame show ?thesis by simp
    next
      case True
      with inv s have "frame_callbacks h = [i]" by (auto simp: scheduled_def)
      then have "frame_callbacks (h\<lparr>frame_callbacks := removeAll i (frame_callbacks h)\<rparr>) = []"
        by simp
      from animate_scheduled [OF this] True show ?thesis by (simp add: Frame s)
    qed
  next
    case (Tick t)
    with inv s show ?thesis by (simp add: scheduled_def)
  next
    case WindowResize
    from window_resize_scheduled [OF inv] show ?thesis by (simp add: WindowResize s)
  qed
qed

lemma run_scheduled: "scheduled s \<Longrightarrow> scheduled (run acts s)"
  unfolding run_def by (induction acts arbitrary: s) (simp_all add: perform_scheduled)

lemma scheduled_at_most_one: "scheduled s \<Longrightarrow> length (frame_callbacks (snd s)) \<le> 1"
  by (auto simp: scheduled_def)

lemma destroy_twice:
  assumes "host_ok h"
  shows "destroy (fst (snd (destroy e h))) (snd (snd (destroy e h))) =
     (Undefined, fst (snd (destroy e h)),
      (snd (snd (destroy e h)))\<lparr>next_closure := Suc (next_closure (snd (snd (destroy e h))))\<rparr>)"
proof -
  define e1 where "e1 = fst (snd (destroy e h))"
  define h1 where "h1 = snd (snd (destroy e h))"
  have idle: "\<not> isRunning e1" "effects e1 = []" "interactionManager e1 = None"
    by (simp_all add: e1_def destroy_engine stop_engine)
  have st: "stop e1 h1 = (This, e1, h1)" using idle(1) by (rule stop_idle)
  have eq: "e1\<lparr>effects := [], interactionManager := None\<rparr> = e1"
    using idle(2,3) by (cases e1) simp
  have "next_closure h1 \<notin> set (resize_listeners h1)"
    using assms by (auto simp: h1_def destroy_host_fields host_ok_def)
  then have l: "removeAll (next_closure h1) (resize_listeners h1) = resize_listeners h1"
    by simp
  have "destroy e1 h1 = (Undefined, e1, h1\<lparr>next_closure := Suc (next_closure h1)\<rparr>)"
    by (simp add: destroy_unfold st eq idle(2) l Let_def)
  then show ?thesis by (simp add: e1_def h1_def)
qed

text \<open>
  C7.  No method of the engine has an error result.  \<open>start\<close> on a running engine,
  \<open>stop\<close> on an engine that is not running and \<open>removeEffect\<close> of an effect that is not
  in the list return the engine and leave the engine and the host as they are.  On a
  well-formed host, a second \<open>destroy\<close> leaves the engine as the first one left it,
  and the host as well, up to the count of the closures created.  From the
  construction of an engine on a host without pending frame callbacks, whatever the
  caller and the host do, at most one frame callback is pending.
\<close>

theorem C7_noops:
  "(isRunning e \<longrightarrow> start e h = (This, e, h)) \<and>
   (\<not> isRunning e \<longrightarrow> stop e h = (This, e, h)) \<and>
   (r \<notin> set (effects e) \<longrightarrow> removeEffect r e h = (This, e, h)) \<and>
   (host_ok h \<longrightarrow>
      (\<exists>e1 h1. perform Destroy (e, h) = (e1, h1) \<and>
               perform Destroy (e1, h1) = (e1, h1\<lparr>next_closure := Suc (next_closure h1)\<rparr>))) \<and>
   (VizFX options h0 = Inr s0 \<and> frame_callbacks h0 = [] \<longrightarrow>
      length (frame_callbacks (snd (run acts s0))) \<le> 1)"
proof (intro conjI impI)
  assume "isRunning e" then show "start e h = (This, e, h)" by (rule start_running)
next
  assume "\<not> isRunning e" then show "stop e h = (This, e, h)" by (rule stop_idle)
next
  assume "r \<notin> set (effects e)" then show "removeEffect r e h = (This, e, h)"
    by (simp add: removeEffect_def)
next
  assume ok: "host_ok h"
  show "\<exists>e1 h1. perform Destroy (e, h) = (e1, h1) \<and>
               perform Destroy (e1, h1) = (e1, h1\<lparr>next_closure := Suc (next_closure h1)\<rparr>)"
    apply (rule exI [of _ "fst (snd (destroy e h))"])
    apply (rule exI [of _ "snd (snd (destroy e h))"])
    apply (simp add: perform_unfold destroy_twice [OF ok])
    done
next
  assume a: "VizFX options h0 = Inr s0 \<and> frame_callbacks h0 = []"
  then have "VizFX options h0 = Inr (fst s0, snd s0)" by simp
  from VizFX_result(7) [OF this] a have "scheduled s0" by (simp add: scheduled_def)
  from scheduled_at_most_one [OF run_scheduled [OF this]]
  show "length (frame_callbacks (snd (run acts s0))) \<le> 1" .
qed

theorem C7_witness:
  "isRunning (fst demo_running) \<and>
   start (fst demo_running) (snd demo_running) = (This, fst demo_running, snd demo_running) \<and>
   \<not> isRunning (fst demo_constructed) \<and>
   stop (fst demo_constructed) (snd demo_constructed) =
     (This, fst demo_constructed, snd demo_constructed) \<and>
   5 \<notin> set (effects (fst demo_running)) \<and>
   removeEffect 5 (fst demo_running) (snd demo_running) = (This, fst demo_running, snd demo_running) \<and>
   host_ok (snd demo_running) \<and>
   perform Destroy (perform Destroy demo_running) =
     (fst (perform Destroy demo_running),
      (snd (perform Destroy demo_running))
        \<lparr>next_closure := Suc (next_closure (snd (perform Destroy demo_running)))\<rparr>) \<and>
   VizFX demo_options demo_host = Inr demo_constructed \<and> frame_callbacks demo_host = [] \<and>
   length (frame_callbacks (snd (run [Stop, Start, Stop, Stop, Destroy, Destroy] demo_constructed))) \<le> 1"
proof -
  note t = C7_noops [where e = "fst demo_running" and h = "snd demo_running" and r = 5
      and options = demo_options and ?h0.0 = demo_host and ?s0.0 = demo_constructed
      and acts = "[Stop, Start, Stop, Stop, Destroy, Destroy]"]
  note u = C7_noops [where e = "fst demo_constructed" and h = "snd demo_constructed",
      THEN conjunct2, THEN conjunct1]
  have a: "isRunning (fst demo_running)" by (rule demo_running_facts)
  have b: "\<not> isRunning (fst demo_constructed)" by (rule demo_constructed_facts)
  have c: "5 \<notin> set (effects (fst demo_running))" by (simp add: demo_running_facts)
  have d: "host_ok (snd demo_running)" by (simp add: host_ok_def demo_running_facts)
  have f: "VizFX demo_options demo_host = Inr demo_constructed \<and> frame_callbacks demo_host = []"
    by (simp add: demo_constructed) (simp add: demo_host_def)
  from t d obtain e1 h1 where
    "perform Destroy (fst demo_running, snd demo_running) = (e1, h1)"
    "perform Destroy (e1, h1) = (e1, h1\<lparr>next_closure := Suc (next_closure h1)\<rparr>)" by blast
  then have g: "perform Destroy (perform Destroy demo_running) =
     (fst (perform Destroy demo_running),
      (snd (perform Destroy demo_running))
        \<lparr>next_closure := Suc (next_closure (snd (perform Destroy demo_running)))\<rparr>)"
    by simp
  show ?thesis using t u a b c d f g by simp
qed

section \<open>Rounding to the nearest double\<close>

lemma rne_error: "\<bar>of_int (rne y) - y\<bar> \<le> 1 / 2"
proof -
  have "of_int \<lfloor>y\<rfloor> \<le> y" "y < of_int \<lfloor>y\<rfloor> + 1" by linarith+
  then show ?thesis by (auto simp: rne_def Let_def)
qed

lemma rne_of_int [simp]: "rne (of_int k) = k"
  by (simp add: rne_def)

lemma binary64_zero [simp]: "binary64 0 = 0"
  by (simp add: binary64_def)

lemma floor_log2:
  assumes "2 powi k \<le> \<bar>a\<bar>" "\<bar>a\<bar> < 2 powi (k + 1)"
  shows "\<lfloor>Transcendental.log 2 \<bar>a\<bar>\<rfloor> = k"
proof -
  have "(0 :: real) < 2 powi k" by simp
  with assms(1) have pos: "0 < \<bar>a\<bar>" by linarith
  have "(2 :: real) powr (of_int k) = 2 powi k" "(2 :: real) powr (of_int k + 1) = 2 powi (k + 1)"
    using powr_real_of_int' [of 2 k] powr_real_of_int' [of 2 "k + 1"] by simp_all
  then show ?thesis using assms pos by (simp add: floor_log_eq_powr_iff)
qed

lemma binary64_at:
  assumes "2 powi k \<le> \<bar>a\<bar>" "\<bar>a\<bar> < 2 powi (k + 1)" "- 1022 \<le> k"
  shows "binary64 a = of_int (rne (a / 2 powi (k - 52))) * 2 powi (k - 52)"
proof -
  have "(0 :: real) < 2 powi k" by simp
  with assms(1) have "a \<noteq> 0" by linarith
  with floor_log2 [OF assms(1,2)] assms(3) show ?thesis
    by (simp add: binary64_def Let_def max_def)
qed

lemma binary64_eighth: "binary64 (1 / 8) = 1 / 8"
  by (subst binary64_at [where k = "-3"]) (simp_all add: rne_def Let_def power_int_minus)

lemma binary64_25_2: "binary64 (25 / 2) = 25 / 2"
  by (subst binary64_at [where k = 3]) (simp_all add: rne_def Let_def power_int_minus)

lemma binary64_50: "binary64 50 = 50"
  by (subst binary64_at [where k = 5]) (simp_all add: rne_def Let_def power_int_minus)

lemma binary64_75_2: "binary64 (75 / 2) = 75 / 2"
  by (subst binary64_at [where k = 5]) (simp_all add: rne_def Let_def power_int_minus)

lemma binary64_49th: "binary64 (1 / 49) = 5882252574524729 / 2 ^ 58"
  by (subst binary64_at [where k = "-6"]) (simp_all add: rne_def Let_def power_int_minus)

lemma binary64_below_one: "binary64 (5882252574524729 / 2 ^ 58 * 49) = 1 - 1 / 2 ^ 53"
  by (subst binary64_at [where k = "-1"]) (simp_all add: rne_def Let_def power_int_minus)

lemma binary64_to_one: "binary64 (5882252574524730 / 2 ^ 58 * 49) = 1"
  by (subst binary64_at [where k = 0]) (simp_all add: rne_def Let_def power_int_minus)

lemma binary64_next_49th: "binary64 (5882252574524730 / 2 ^ 58) = 5882252574524730 / 2 ^ 58"
  by (subst binary64_at [where k = "-6"]) (simp_all add: rne_def Let_def power_int_minus)

text \<open>
  In the range of the normal doubles, rounding changes a number by at most one part
  in \<open>2 ^ 53\<close>.
\<close>

lemma log2_powi: "Transcendental.log 2 (2 powi k) = of_int k"
  using powr_real_of_int' [of 2 k] log_powr_cancel [of 2 "of_int k"] by simp

lemma binary64_error_at:
  assumes "2 powi k \<le> \<bar>a\<bar>" "- 1022 \<le> k"
  shows "\<bar>binary64 a - a\<bar> \<le> \<bar>a\<bar> / 2 ^ 53"
proof -
  define e where "e = \<lfloor>Transcendental.log 2 \<bar>a\<bar>\<rfloor>"
  define s :: real where "s = 2 powi (e - 52)"
  have "(0 :: real) < 2 powi k" by simp
  with assms(1) have pos: "0 < \<bar>a\<bar>" by linarith
  then have nz: "a \<noteq> 0" by simp
  have "Transcendental.log 2 (2 powi k) \<le> Transcendental.log 2 \<bar>a\<bar>"
    using assms(1) pos by (subst log_le_cancel_iff) simp_all
  then have "of_int k \<le> Transcendental.log 2 \<bar>a\<bar>" by (simp add: log2_powi)
  then have "k \<le> e" unfolding e_def by (simp add: le_floor_iff)
  with assms(2) have e: "- 1022 \<le> e" by simp
  have "2 powr (of_int e) \<le> \<bar>a\<bar>"
  proof -
    have "of_int e \<le> Transcendental.log 2 \<bar>a\<bar>" unfolding e_def by simp
    then have "2 powr (of_int e) \<le> 2 powr (Transcendental.log 2 \<bar>a\<bar>)"
      by (subst powr_le_cancel_iff) simp_all
    with pos show ?thesis by simp
  qed
  then have low: "2 powi e \<le> \<bar>a\<bar>" using powr_real_of_int' [of 2 e] by simp
  have spos: "0 < s" by (simp add: s_def)
  have m: "max e (- 1022) = e" using e by simp
  have b: "binary64 a = of_int (rne (a / s)) * s"
    using nz by (simp add: binary64_def Let_def e_def [symmetric] m s_def)
  have "binary64 a - a = (of_int (rne (a / s)) - a / s) * s"
    using spos by (simp add: b field_simps)
  then have "\<bar>binary64 a - a\<bar> = \<bar>of_int (rne (a / s)) - a / s\<bar> * s"
    using spos by (simp add: abs_mult)
  also have "\<dots> \<le> 1 / 2 * s" using rne_error [of "a / s"] spos by (intro mult_right_mono) simp_all
  also have "1 / 2 * s = 2 powi e / 2 ^ 53"
    by (simp add: s_def power_int_diff)
  also have "\<dots> \<le> \<bar>a\<bar> / 2 ^ 53" using low by (simp add: divide_right_mono)
  finally show ?thesis .
qed

lemma rescale_error:
  assumes "0 < w" "normal_range (x / w)" "normal_range (binary64 (x / w) * w)"
  shows "\<bar>binary64 (binary64 (x / w) * w) - x\<bar> \<le> \<bar>x\<bar> * (1 / 2 ^ 52 + 1 / 2 ^ 106)"
proof -
  define q where "q = binary64 (x / w)"
  define u :: real where "u = 1 / 2 ^ 53"
  have u: "0 < u" by (simp add: u_def)
  have n1: "2 powi (- 1022) \<le> \<bar>x / w\<bar>" and n2: "2 powi (- 1022) \<le> \<bar>q * w\<bar>"
    using assms(2,3) unfolding normal_range_def q_def by blast+
  have q: "\<bar>q - x / w\<bar> \<le> \<bar>x / w\<bar> * u"
    unfolding q_def u_def using binary64_error_at [OF n1] by simp
  have "q * w - x = (q - x / w) * w" using assms(1) by (simp add: field_simps)
  then have "\<bar>q * w - x\<bar> = \<bar>q - x / w\<bar> * w" using assms(1) by (simp add: abs_mult)
  also have "\<dots> \<le> \<bar>x / w\<bar> * u * w" using q assms(1) by (intro mult_right_mono) simp_all
  also have "\<dots> = \<bar>x\<bar> * u" using assms(1) by (simp add: abs_divide)
  finally have d1: "\<bar>q * w - x\<bar> \<le> \<bar>x\<bar> * u" .
  have "\<bar>q * w\<bar> \<le> \<bar>q * w - x\<bar> + \<bar>x\<bar>" by linarith
  with d1 have up: "\<bar>q * w\<bar> \<le> \<bar>x\<bar> * (1 + u)" by (simp add: algebra_simps)
  from binary64_error_at [OF n2] have "\<bar>binary64 (q * w) - q * w\<bar> \<le> \<bar>q * w\<bar> * u"
    by (simp add: u_def)
  also have "\<dots> \<le> \<bar>x\<bar> * (1 + u) * u" using up u by (intro mult_right_mono) simp_all
  finally have d2: "\<bar>binary64 (q * w) - q * w\<bar> \<le> \<bar>x\<bar> * (1 + u) * u" .
  have "\<bar>binary64 (q * w) - x\<bar> \<le> \<bar>binary64 (q * w) - q * w\<bar> + \<bar>q * w - x\<bar>" by linarith
  also have "\<dots> \<le> \<bar>x\<bar> * (1 + u) * u + \<bar>x\<bar> * u" using d1 d2 by linarith
  also have "\<dots> = \<bar>x\<bar> * (1 / 2 ^ 52 + 1 / 2 ^ 106)" by (simp add: u_def algebra_simps)
  finally show ?thesis unfolding q_def .
qed

section \<open>The engine: resizing twice to the same size\<close>

lemma env_kept_objects: "env_kept (h :: host) h' \<Longrightarrow> objects h' = objects h"
  by (auto simp: env_kept_def)

lemma effect_resize_other: "r' \<noteq> r \<Longrightarrow> objects (effect_resize w hh r h) r' = objects h r'"
proof (cases "objects h r")
  case None
  then show ?thesis by (simp add: effect_resize_def)
next
  case (Some eff)
  assume "r' \<noteq> r"
  with Some show ?thesis
    by (cases eff)
       (auto simp: effect_resize_def split: prod.splits dest!: env_kept_fp_resize env_kept_objects)
qed

lemma fp_resize_size:
  "fp_width (fst (fp_resize w hh s h)) = w" "fp_height (fst (fp_resize w hh s h)) = hh"
  by (simp_all add: fp_resize_def Let_def fp_initParticles_def split: prod.splits)

lemma effect_resize_settles:
  assumes "0 < w" "0 < hh"
  shows "settled w hh (effect_resize w hh r h) r"
proof (cases "objects h r")
  case None
  then show ?thesis by (simp add: effect_resize_def settled_def)
next
  case (Some eff)
  show ?thesis
  proof (cases eff)
    case (PS s)
    with Some assms show ?thesis
      by (simp add: effect_resize_def settled_def ps_resize_def Let_def vec2_set_def)
  next
    case (FP s)
    obtain s' h' where r: "fp_resize w hh s h = (s', h')" by (cases "fp_resize w hh s h")
    with fp_resize_size [of w hh s h] have "fp_width s' = w" "fp_height s' = hh" by simp_all
    with Some FP r show ?thesis by (simp add: effect_resize_def settled_def)
  next
    case (Wave s)
    with Some show ?thesis by (simp add: effect_resize_def settled_def wv_resize_def)
  next
    case (Gradient s)
    with Some show ?thesis by (simp add: effect_resize_def settled_def gm_resize_def)
  qed
qed

lemma settled_other: "r' \<noteq> r \<Longrightarrow> settled w hh (effect_resize w hh r h) r' = settled w hh h r'"
  by (simp add: settled_def effect_resize_other)

lemma settled_kept:
  "0 < w \<Longrightarrow> 0 < hh \<Longrightarrow> settled w hh h r' \<Longrightarrow> settled w hh (effect_resize w hh r h) r'"
  by (cases "r' = r") (simp_all add: effect_resize_settles settled_other)

lemma settled_kept_fold:
  "0 < w \<Longrightarrow> 0 < hh \<Longrightarrow> settled w hh h r' \<Longrightarrow> settled w hh (fold (effect_resize w hh) rs h) r'"
  by (induction rs arbitrary: h) (simp_all add: settled_kept)

lemma fold_settles:
  "0 < w \<Longrightarrow> 0 < hh \<Longrightarrow> r \<in> set rs \<Longrightarrow> settled w hh (fold (effect_resize w hh) rs h) r"
proof (induction rs arbitrary: h)
  case Nil
  then show ?case by simp
next
  case (Cons x xs)
  show ?case
  proof (cases "r = x")
    case True
    with Cons.prems show ?thesis by (simp add: settled_kept_fold effect_resize_settles)
  next
    case False
    with Cons show ?thesis by simp
  qed
qed

lemma fp_resize_settled:
  assumes "0 < w" "0 < hh" "fp_width s = w" "fp_height s = hh"
  shows "fp_resize w hh s h = (s\<lparr>fp_particles := map (fp_rescale w hh w hh) (fp_particles s)\<rparr>, h)"
proof -
  have "fp_resize (fp_width s) (fp_height s) s h =
          (s\<lparr>fp_particles := map (fp_rescale (fp_width s) (fp_height s) (fp_width s) (fp_height s))
                                 (fp_particles s)\<rparr>, h)"
    using assms by (simp add: fp_resize_def Let_def)
  with assms(3,4) show ?thesis by simp
qed

lemma ps_resize_same:
  "ps_width s = w \<Longrightarrow> ps_height s = hh \<Longrightarrow>
   \<not> (vx (ps_emitterPosition (ps_opts s)) = 0 \<and> vy (ps_emitterPosition (ps_opts s)) = 0) \<Longrightarrow>
   ps_resize w hh s = s"
  by (auto simp: ps_resize_def Let_def)

lemma effect_resize_settled:
  assumes "0 < w" "0 < hh" "settled w hh h r"
  shows "effect_resize w hh r h =
           h\<lparr>objects := (objects h)(r := map_option (rescaled w hh) (objects h r))\<rparr>"
proof (cases "objects h r")
  case None
  then have "(objects h)(r := None) = objects h" by (simp add: fun_upd_idem)
  with None show ?thesis by (simp add: effect_resize_def)
next
  case (Some eff)
  show ?thesis
  proof (cases eff)
    case (PS s)
    with Some assms(3) have "ps_resize w hh s = s" by (simp add: settled_def ps_resize_same)
    with Some PS show ?thesis by (simp add: effect_resize_def)
  next
    case (FP s)
    with Some assms have
      "fp_resize w hh s h = (s\<lparr>fp_particles := map (fp_rescale w hh w hh) (fp_particles s)\<rparr>, h)"
      by (simp add: settled_def fp_resize_settled)
    with Some FP show ?thesis by (simp add: effect_resize_def)
  next
    case (Wave s)
    with Some assms(3) have "wv_resize w hh s = s" by (simp add: settled_def wv_resize_def)
    with Some Wave show ?thesis by (simp add: effect_resize_def)
  next
    case (Gradient s)
    with Some assms(3) have "gm_resize w hh s = s" by (simp add: settled_def gm_resize_def)
    with Some Gradient show ?thesis by (simp add: effect_resize_def)
  qed
qed

lemma fold_resize_settled:
  "0 < w \<Longrightarrow> 0 < hh \<Longrightarrow> (\<forall>r \<in> set rs. settled w hh h r) \<Longrightarrow>
   fold (effect_resize w hh) rs h =
     h\<lparr>objects := (\<lambda>r. map_option (rescaled w hh ^^ count_list rs r) (objects h r))\<rparr>"
proof (induction rs arbitrary: h)
  case Nil
  have "(\<lambda>r. map_option (\<lambda>x. x) (objects h r)) = objects h" by (simp add: option.map_ident)
  then show ?case by (simp add: id_def)
next
  case (Cons x xs)
  let ?h = "effect_resize w hh x h"
  have st: "\<forall>r \<in> set xs. settled w hh ?h r"
    using Cons.prems by (simp add: settled_kept)
  have one: "?h = h\<lparr>objects := (objects h)(x := map_option (rescaled w hh) (objects h x))\<rparr>"
    using Cons.prems by (simp add: effect_resize_settled)
  have "(\<lambda>r. map_option (rescaled w hh ^^ count_list xs r) (objects ?h r)) =
        (\<lambda>r. map_option (rescaled w hh ^^ count_list (x # xs) r) (objects h r))"
  proof
    fix r
    show "map_option (rescaled w hh ^^ count_list xs r) (objects ?h r) =
          map_option (rescaled w hh ^^ count_list (x # xs) r) (objects h r)"
      unfolding one
      by (cases "objects h x") (simp_all add: option.map_comp funpow_swap1 comp_def)
  qed
  with Cons.IH [OF Cons.prems(1,2) st] show ?case
    by (simp add: one)
qed

lemma settled_emit [simp]: "settled w hh (emit ev h) r = settled w hh h r"
  by (simp add: settled_def emit_def)

lemma resize_twice:
  assumes "0 < w" "0 < hh"
  shows "\<exists>l. resize (Some w) (Some hh) (fst (snd (resize (Some w) (Some hh) e h)))
                 (snd (snd (resize (Some w) (Some hh) e h))) =
     (This, fst (snd (resize (Some w) (Some hh) e h)),
      (snd (snd (resize (Some w) (Some hh) e h)))
        \<lparr>log := l,
         objects := (\<lambda>r. map_option
            (rescaled w hh ^^ (if gl e = None then 0 else count_list (effects e) r))
            (objects (snd (snd (resize (Some w) (Some hh) e h))) r))\<rparr>)"
proof (cases "gl e = None")
  case True
  then have "resize (Some w) (Some hh) e h = (This, e, h)" by (simp add: resize_def)
  moreover have "(\<lambda>r. map_option (\<lambda>x. x) (objects h r)) = objects h"
    by (simp add: option.map_ident)
  ultimately show ?thesis using True by (intro exI [of _ "log h"]) (simp add: id_def)
next
  case False
  define c where "c = (canvas e)\<lparr>canvas_width := w * dpr e, canvas_height := hh * dpr e,
                                 style_width := Some w, style_height := Some hh\<rparr>"
  define h1 where "h1 = fold (effect_resize w hh) (effects e) (emit (Viewport 0 0 (w * dpr e) (hh * dpr e)) h)"
  have first: "resize (Some w) (Some hh) e h = (This, e\<lparr>canvas := c\<rparr>, h1)"
    using False by (auto simp: resize_def Let_def c_def h1_def)
  have all: "\<forall>r \<in> set (effects e). settled w hh (emit (Viewport 0 0 (w * dpr e) (hh * dpr e)) h1) r"
    using fold_settles [OF assms] by (simp add: h1_def)
  have cc: "c\<lparr>canvas_width := w * dpr e, canvas_height := hh * dpr e,
             style_width := Some w, style_height := Some hh\<rparr> = c"
    by (simp add: c_def)
  have "resize (Some w) (Some hh) (e\<lparr>canvas := c\<rparr>) h1 =
          (This, e\<lparr>canvas := c\<rparr>,
           (emit (Viewport 0 0 (w * dpr e) (hh * dpr e)) h1)
             \<lparr>objects := (\<lambda>r. map_option (rescaled w hh ^^ count_list (effects e) r)
                 (objects (emit (Viewport 0 0 (w * dpr e) (hh * dpr e)) h1) r))\<rparr>)"
    using False fold_resize_settled [OF assms all] by (auto simp: resize_def Let_def cc c_def)
  moreover have "(if gl e = None then 0 else count_list (effects e) r) = count_list (effects e) r" for r
    using False by auto
  ultimately show ?thesis
    unfolding first
    by (intro exI [of _ "log h1 @ [Viewport 0 0 (w * dpr e) (hh * dpr e)]"]) (simp add: emit_def)
qed

lemma fp_resize_init:
  assumes "\<not> (0 < fp_width s \<and> 0 < fp_height s)"
  shows "fp_resize w hh s h = fp_initParticles (s\<lparr>fp_width := w, fp_height := hh\<rparr>) h"
proof -
  from assms have "\<not> (fp_width s > 0 \<and> fp_height s > 0)" by simp
  then show ?thesis unfolding fp_resize_def Let_def by (simp only: if_False)
qed

lemma fp_resize_reinit:
  assumes "w \<le> 0 \<or> hh \<le> 0"
  shows "fp_resize w hh (fst (fp_resize w hh s g)) g' = fp_initParticles (fst (fp_resize w hh s g)) g'"
proof -
  let ?s = "fst (fp_resize w hh s g)"
  have sz: "fp_width ?s = w" "fp_height ?s = hh" by (rule fp_resize_size)+
  then have same: "?s\<lparr>fp_width := w, fp_height := hh\<rparr> = ?s" by simp
  from sz assms have "\<not> (0 < fp_width ?s \<and> 0 < fp_height ?s)" by auto
  from fp_resize_init [OF this, of w hh g'] show ?thesis unfolding same .
qed

lemma fp_rescale_x:
  "vx (fposition (fp_rescale a b c d p)) = binary64 (binary64 (vx (fposition p) / a) * c)"
  "vy (fposition (fp_rescale a b c d p)) = binary64 (binary64 (vy (fposition p) / b) * d)"
  by (simp_all add: fp_rescale_def)

lemma fp_rescale_at:
  "fp_rescale a b c d \<lparr>fposition = \<lparr>vx = x, vy = y\<rparr>, fvelocity = v, fsize = z\<rparr> =
     \<lparr>fposition = \<lparr>vx = binary64 (binary64 (x / a) * c), vy = binary64 (binary64 (y / b) * d)\<rparr>,
      fvelocity = v, fsize = z\<rparr>"
  by (simp add: fp_rescale_def)

lemma drift_step1:
  "fp_rescale 1 1 49 49 \<lparr>fposition = Vec2 (5882252574524730 / 2 ^ 58) 0, fvelocity = Vec2 1 1, fsize = 2\<rparr> =
     \<lparr>fposition = Vec2 1 0, fvelocity = Vec2 1 1, fsize = 2\<rparr>"
proof -
  have a: "binary64 (5882252574524730 / 2 ^ 58 / 1) = 5882252574524730 / 2 ^ 58"
    using binary64_next_49th by simp
  have x: "binary64 (binary64 (5882252574524730 / 2 ^ 58 / 1) * 49) = 1"
    unfolding a by (rule binary64_to_one)
  have y: "binary64 (binary64 (0 / 1) * 49) = 0" by simp
  show ?thesis
    using fp_rescale_at [of 1 1 49 49 "5882252574524730 / 2 ^ 58" 0 "Vec2 1 1" 2]
    unfolding x y Vec2_def .
qed

lemma drift_step2:
  "fp_rescale 49 49 49 49 \<lparr>fposition = Vec2 1 0, fvelocity = Vec2 1 1, fsize = 2\<rparr> =
     \<lparr>fposition = Vec2 (1 - 1 / 2 ^ 53) 0, fvelocity = Vec2 1 1, fsize = 2\<rparr>"
proof -
  have x: "binary64 (binary64 (1 / 49) * 49) = 1 - 1 / 2 ^ 53"
    unfolding binary64_49th by (rule binary64_below_one)
  have y: "binary64 (binary64 (0 / 49) * 49) = 0" by simp
  show ?thesis
    using fp_rescale_at [of 49 49 49 49 1 0 "Vec2 1 1" 2]
    unfolding x y Vec2_def .
qed

lemma field_step:
  "fp_rescale 800 600 w hh \<lparr>fposition = Vec2 100 75, fvelocity = Vec2 1 1, fsize = 2\<rparr> =
     \<lparr>fposition = Vec2 (binary64 (w / 8)) (binary64 (hh / 8)), fvelocity = Vec2 1 1, fsize = 2\<rparr>"
  by (simp add: fp_rescale_def Vec2_def binary64_eighth)

lemma field_step2:
  "fp_rescale 400 300 400 300 \<lparr>fposition = Vec2 50 (75 / 2), fvelocity = Vec2 1 1, fsize = 2\<rparr> =
     \<lparr>fposition = Vec2 50 (75 / 2), fvelocity = Vec2 1 1, fsize = 2\<rparr>"
  by (simp add: fp_rescale_def Vec2_def binary64_eighth binary64_50 binary64_75_2)

text \<open>An engine with one registered field of a positive size: what a resize makes of the field.\<close>

lemma resize_one_field:
  assumes "gl e \<noteq> None" "effects e = [r]" "objects h r = Some (FP f)"
    "0 < fp_width f" "0 < fp_height f"
  shows "objects (snd (perform (Resize (Some w) (Some hh)) (e, h))) r =
           Some (FP (f\<lparr>fp_width := w, fp_height := hh,
                      fp_particles := map (fp_rescale (fp_width f) (fp_height f) w hh) (fp_particles f)\<rparr>))"
  using assms by (auto simp: resize_def Let_def effect_resize_def fp_resize_def emit_def)

lemma resize_one_field_init:
  assumes "gl e \<noteq> None" "effects e = [r]" "objects h r = Some (FP f)"
    "\<not> (0 < fp_width f \<and> 0 < fp_height f)"
  shows "objects (snd (perform (Resize (Some w) (Some hh)) (e, h))) r =
           Some (FP (fst (fp_initParticles (f\<lparr>fp_width := w, fp_height := hh\<rparr>)
                      (emit (Viewport 0 0 (w * dpr e) (hh * dpr e)) h))))"
proof -
  obtain s' h' where i: "fp_initParticles (f\<lparr>fp_width := w, fp_height := hh\<rparr>)
                      (emit (Viewport 0 0 (w * dpr e) (hh * dpr e)) h) = (s', h')"
    by (cases "fp_initParticles (f\<lparr>fp_width := w, fp_height := hh\<rparr>)
                      (emit (Viewport 0 0 (w * dpr e) (hh * dpr e)) h)")
  have "fp_resize w hh f (emit (Viewport 0 0 (w * dpr e) (hh * dpr e)) h) = (s', h')"
    by (simp only: fp_resize_init [OF assms(4)] i)
  with assms(1-3) i show ?thesis
    by (auto simp: resize_def Let_def effect_resize_def emit_def)
qed

lemma resize_engine_kept:
  "gl (fst (perform (Resize a b) (e, h))) = gl e"
  "effects (fst (perform (Resize a b) (e, h))) = effects e"
  "dpr (fst (perform (Resize a b) (e, h))) = dpr e"
  by (simp_all add: resize_def Let_def)

lemma fp_new_particle_position:
  "fposition (fst (fp_new_particle s h)) = Vec2 (randoms h 0 * fp_width s) (randoms h 1 * fp_height s)"
  by (simp add: fp_new_particle_def random_range_def math_random_def Vec2_def split: prod.splits)

lemma fp_init_loop_one:
  assumes "fp_count (fp_opts s) = 1"
  shows "fp_init_loop s 0 [] h = ([fst (fp_new_particle s h)], snd (fp_new_particle s h))"
proof -
  obtain p h' where n: "fp_new_particle s h = (p, h')" by (cases "fp_new_particle s h")
  have "fp_init_loop s 0 [] h = fp_init_loop s (Suc 0) [p] h'"
    using assms n by (subst fp_init_loop.simps) simp
  also have "\<dots> = ([p], h')" using assms by (subst fp_init_loop.simps) simp
  finally show ?thesis using n by simp
qed

text \<open>
  C6 (as amended).  For a width and a height that are both positive, a second
  \<open>resize\<close> to the same width and height leaves the engine (and so the size of its
  canvas) as the first one left it, and the host as well, up to the log of WebGL
  calls and the positions of floating particles: no effect changes its logical
  size, no random number is drawn, and the only change to an effect object is that
  every floating particle goes through the rescaling \<open>(pos / size) * size\<close> once
  more, for each time that its effect is registered (and not at all on an engine
  without a WebGL context, whose \<open>resize\<close> does nothing).  Division and
  multiplication round to the nearest double: the rescaling keeps a coordinate that
  is zero, and moves any other coordinate \<open>x\<close> by at most
  \<open>\<bar>x\<bar> * (2 powi (-52) + 2 powi (-106))\<close> when the quotient and the product are in
  the normal range of the doubles.  When the width or the height is not positive, a
  field of floating particles that has been resized to them has no positive previous
  size at the next \<open>resize\<close> to them, which therefore is \<open>initParticles\<close>: it draws
  all particles anew.
\<close>

theorem C6_resize_twice_same_positive_size:
  "(0 < w \<and> 0 < hh \<longrightarrow>
     (\<exists>e1 h1 l. perform (Resize (Some w) (Some hh)) (e, h) = (e1, h1) \<and>
        perform (Resize (Some w) (Some hh)) (e1, h1) =
          (e1, h1\<lparr>log := l,
                  objects := (\<lambda>r. map_option
                     (rescaled w hh ^^ (if gl e = None then 0 else count_list (effects e) r))
                     (objects h1 r))\<rparr>))) \<and>
   (vx (fposition p) = 0 \<longrightarrow> vx (fposition (fp_rescale a b a b p)) = 0) \<and>
   (vy (fposition p) = 0 \<longrightarrow> vy (fposition (fp_rescale a b a b p)) = 0) \<and>
   (0 < a \<and> normal_range (vx (fposition p) / a) \<and> normal_range (binary64 (vx (fposition p) / a) * a) \<longrightarrow>
      \<bar>vx (fposition (fp_rescale a b a b p)) - vx (fposition p)\<bar>
        \<le> \<bar>vx (fposition p)\<bar> * (1 / 2 ^ 52 + 1 / 2 ^ 106)) \<and>
   (0 < b \<and> normal_range (vy (fposition p) / b) \<and> normal_range (binary64 (vy (fposition p) / b) * b) \<longrightarrow>
      \<bar>vy (fposition (fp_rescale a b a b p)) - vy (fposition p)\<bar>
        \<le> \<bar>vy (fposition p)\<bar> * (1 / 2 ^ 52 + 1 / 2 ^ 106)) \<and>
   (c \<le> 0 \<or> d \<le> 0 \<longrightarrow>
      fp_resize c d (fst (fp_resize c d s g)) g' = fp_initParticles (fst (fp_resize c d s g)) g')"
proof -
  have twice: "\<exists>e1 h1 l. perform (Resize (Some w) (Some hh)) (e, h) = (e1, h1) \<and>
        perform (Resize (Some w) (Some hh)) (e1, h1) =
          (e1, h1\<lparr>log := l,
                  objects := (\<lambda>r. map_option
                     (rescaled w hh ^^ (if gl e = None then 0 else count_list (effects e) r))
                     (objects h1 r))\<rparr>)"
    if "0 < w" "0 < hh"
  proof -
    from resize_twice [OF that, of e h] obtain l where l:
      "resize (Some w) (Some hh) (fst (snd (resize (Some w) (Some hh) e h)))
                 (snd (snd (resize (Some w) (Some hh) e h))) =
       (This, fst (snd (resize (Some w) (Some hh) e h)),
        (snd (snd (resize (Some w) (Some hh) e h)))
          \<lparr>log := l,
           objects := (\<lambda>r. map_option
              (rescaled w hh ^^ (if gl e = None then 0 else count_list (effects e) r))
              (objects (snd (snd (resize (Some w) (Some hh) e h))) r))\<rparr>)"
      by blast
    show ?thesis
      apply (rule exI [of _ "fst (snd (resize (Some w) (Some hh) e h))"])
      apply (rule exI [of _ "snd (snd (resize (Some w) (Some hh) e h))"])
      apply (rule exI [of _ l])
      apply (simp add: perform_unfold l)
      done
  qed
  have zx: "vx (fposition (fp_rescale a b a b p)) = 0" if "vx (fposition p) = 0"
    using that by (simp add: fp_rescale_x)
  have zy: "vy (fposition (fp_rescale a b a b p)) = 0" if "vy (fposition p) = 0"
    using that by (simp add: fp_rescale_x)
  have bx: "\<bar>vx (fposition (fp_rescale a b a b p)) - vx (fposition p)\<bar>
        \<le> \<bar>vx (fposition p)\<bar> * (1 / 2 ^ 52 + 1 / 2 ^ 106)"
    if "0 < a" "normal_range (vx (fposition p) / a)" "normal_range (binary64 (vx (fposition p) / a) * a)"
    unfolding fp_rescale_x by (rule rescale_error [OF that])
  have by': "\<bar>vy (fposition (fp_rescale a b a b p)) - vy (fposition p)\<bar>
        \<le> \<bar>vy (fposition p)\<bar> * (1 / 2 ^ 52 + 1 / 2 ^ 106)"
    if "0 < b" "normal_range (vy (fposition p) / b)" "normal_range (binary64 (vy (fposition p) / b) * b)"
    unfolding fp_rescale_x by (rule rescale_error [OF that])
  have re: "fp_resize c d (fst (fp_resize c d s g)) g' = fp_initParticles (fst (fp_resize c d s g)) g'"
    if "c \<le> 0 \<or> d \<le> 0"
    using that by (rule fp_resize_reinit)
  show ?thesis using twice zx zy bx by' re by blast
qed

lemma field_engine_facts:
  "gl field_engine \<noteq> None" "effects field_engine = [1]" "dpr field_engine = 1"
  by (simp_all add: field_engine_def)

lemma field_host_object: "objects field_host 1 = Some (FP one_field)"
  by (simp add: field_host_def)

lemma drift_host_object: "objects drift_host 1 = Some (FP drift_field)"
  by (simp add: drift_host_def)

lemma one_field_facts:
  "fp_width one_field = 800" "fp_height one_field = 600"
  "fp_particles one_field = [\<lparr>fposition = Vec2 100 75, fvelocity = Vec2 1 1, fsize = 2\<rparr>]"
  "fp_count (fp_opts one_field) = 1"
  by (simp_all add: one_field_def FloatingParticles_def)

lemma drift_field_facts:
  "fp_width drift_field = 1" "fp_height drift_field = 1"
  "fp_particles drift_field =
     [\<lparr>fposition = Vec2 (5882252574524730 / 2 ^ 58) 0, fvelocity = Vec2 1 1, fsize = 2\<rparr>]"
  by (simp_all add: drift_field_def one_field_def FloatingParticles_def)

lemma field_first_resize:
  "objects (snd (perform (Resize (Some w) (Some hh)) (field_engine, field_host))) 1 =
     Some (FP (one_field\<lparr>fp_width := w, fp_height := hh,
        fp_particles := [\<lparr>fposition = Vec2 (binary64 (w / 8)) (binary64 (hh / 8)),
                          fvelocity = Vec2 1 1, fsize = 2\<rparr>]\<rparr>))"
  using resize_one_field [OF field_engine_facts(1,2) field_host_object, of w hh]
  by (simp add: one_field_facts field_step)

lemma fp_initParticles_one:
  assumes "fp_count (fp_opts s) = 1"
  shows "fp_particles (fst (fp_initParticles s h)) = [fst (fp_new_particle s h)]"
  by (simp add: fp_initParticles_def fp_init_loop_one [OF assms])

lemma field_second_resize_hidden:
  "positions_of (objects (snd (perform (Resize (Some 0) (Some 100))
       (perform (Resize (Some 0) (Some 100)) (field_engine, field_host)))) 1) = [Vec2 0 (100 / 3)]"
proof -
  let ?x = "perform (Resize (Some 0) (Some 100)) (field_engine, field_host)"
  define f where "f = one_field\<lparr>fp_width := 0, fp_height := 100,
        fp_particles := [\<lparr>fposition = Vec2 (binary64 (0 / 8)) (binary64 (100 / 8)),
                          fvelocity = Vec2 1 1, fsize = 2\<rparr>]\<rparr>"
  define s0 where "s0 = f\<lparr>fp_width := 0, fp_height := 100\<rparr>"
  define h0 where "h0 = emit (Viewport 0 0 (0 * dpr (fst ?x)) (100 * dpr (fst ?x))) (snd ?x)"
  have g: "gl (fst ?x) \<noteq> None" "effects (fst ?x) = [1]"
    by (simp_all only: resize_engine_kept field_engine_facts not_False_eq_True)
  have o: "objects (snd ?x) 1 = Some (FP f)" unfolding f_def by (rule field_first_resize)
  have n: "\<not> (0 < fp_width f \<and> 0 < fp_height f)" by (simp add: f_def)
  have r: "randoms (snd ?x) = (\<lambda>n. 1 / (real n + 2))"
    by (simp add: resize_def field_engine_def field_host_def demo_host_def effect_resize_def
          fp_resize_def Let_def one_field_def emit_def)
  then have r0: "randoms h0 = (\<lambda>n. 1 / (real n + 2))" by (simp add: h0_def emit_def)
  have c: "fp_count (fp_opts s0) = 1" "fp_width s0 = 0" "fp_height s0 = 100"
    by (simp_all add: s0_def f_def one_field_facts)
  have "objects (snd (perform (Resize (Some 0) (Some 100)) (fst ?x, snd ?x))) 1 =
          Some (FP (fst (fp_initParticles s0 h0)))"
    unfolding s0_def h0_def by (rule resize_one_field_init [OF g o n])
  then have "positions_of (objects (snd (perform (Resize (Some 0) (Some 100)) ?x)) 1) =
          map fposition (fp_particles (fst (fp_initParticles s0 h0)))"
    unfolding prod.collapse by simp
  also have "\<dots> = [Vec2 (randoms h0 0 * fp_width s0) (randoms h0 1 * fp_height s0)]"
    by (simp add: fp_initParticles_one [OF c(1)] fp_new_particle_position)
  also have "\<dots> = [Vec2 0 (100 / 3)]" by (simp add: r0 c)
  finally show ?thesis .
qed

theorem C6_hidden_canvas_or_rounding_counterexample:
  "positions_of (objects (snd (perform (Resize (Some 0) (Some 100)) (field_engine, field_host))) 1)
     = [Vec2 0 (25 / 2)] \<and>
   positions_of (objects (snd (perform (Resize (Some 0) (Some 100))
       (perform (Resize (Some 0) (Some 100)) (field_engine, field_host)))) 1) = [Vec2 0 (100 / 3)] \<and>
   Vec2 0 (25 / 2) \<noteq> Vec2 0 (100 / 3) \<and>
   (0 :: real) < 49 \<and>
   positions_of (objects (snd (perform (Resize (Some 49) (Some 49)) (field_engine, drift_host))) 1)
     = [Vec2 1 0] \<and>
   positions_of (objects (snd (perform (Resize (Some 49) (Some 49))
       (perform (Resize (Some 49) (Some 49)) (field_engine, drift_host)))) 1) = [Vec2 (1 - 1 / 2 ^ 53) 0] \<and>
   Vec2 1 0 \<noteq> Vec2 (1 - 1 / 2 ^ 53) 0"
proof -
  have h1: "positions_of (objects (snd (perform (Resize (Some 0) (Some 100)) (field_engine, field_host))) 1)
     = [Vec2 0 (25 / 2)]"
    unfolding field_first_resize by (simp add: binary64_25_2)
  have h3: "Vec2 0 (25 / 2) \<noteq> Vec2 0 (100 / 3)" by (simp add: Vec2_def)
  let ?x = "perform (Resize (Some 49) (Some 49)) (field_engine, drift_host)"
  let ?f = "drift_field\<lparr>fp_width := 49, fp_height := 49,
              fp_particles := [\<lparr>fposition = Vec2 1 0, fvelocity = Vec2 1 1, fsize = 2\<rparr>]\<rparr>"
  have "objects (snd ?x) 1 =
          Some (FP (drift_field\<lparr>fp_width := 49, fp_height := 49,
             fp_particles := map (fp_rescale (fp_width drift_field) (fp_height drift_field) 49 49)
                               (fp_particles drift_field)\<rparr>))"
    by (rule resize_one_field [OF field_engine_facts(1,2) drift_host_object])
       (simp_all add: drift_field_facts(1,2))
  then have o: "objects (snd ?x) 1 = Some (FP ?f)"
    unfolding drift_field_facts list.map drift_step1 .
  have g: "gl (fst ?x) \<noteq> None" "effects (fst ?x) = [1]"
    by (simp_all only: resize_engine_kept field_engine_facts not_False_eq_True)
  have "objects (snd (perform (Resize (Some 49) (Some 49)) (fst ?x, snd ?x))) 1 =
          Some (FP (?f\<lparr>fp_width := 49, fp_height := 49,
             fp_particles := map (fp_rescale (fp_width ?f) (fp_height ?f) 49 49) (fp_particles ?f)\<rparr>))"
    by (rule resize_one_field [OF g o]) simp_all
  then have o2: "positions_of (objects (snd (perform (Resize (Some 49) (Some 49)) ?x)) 1) =
      [Vec2 (1 - 1 / 2 ^ 53) 0]"
    unfolding prod.collapse by (simp add: drift_step2)
  have d1: "positions_of (objects (snd ?x) 1) = [Vec2 1 0]" unfolding o by simp
  have d3: "Vec2 1 0 \<noteq> Vec2 (1 - 1 / 2 ^ 53) 0" by (simp add: Vec2_def)
  from h1 field_second_resize_hidden h3 d1 o2 d3 show ?thesis by simp
qed

theorem C6_witness:
  "(0 :: real) < 400 \<and> (0 :: real) < 300 \<and>
   fst (perform (Resize (Some 400) (Some 300))
          (perform (Resize (Some 400) (Some 300)) (field_engine, field_host))) =
     fst (perform (Resize (Some 400) (Some 300)) (field_engine, field_host)) \<and>
   positions_of (objects (snd (perform (Resize (Some 400) (Some 300)) (field_engine, field_host))) 1)
     = [Vec2 50 (75 / 2)] \<and>
   positions_of (objects (snd (perform (Resize (Some 400) (Some 300))
       (perform (Resize (Some 400) (Some 300)) (field_engine, field_host)))) 1) = [Vec2 50 (75 / 2)] \<and>
   vx (fposition \<lparr>fposition = Vec2 0 0, fvelocity = Vec2 1 1, fsize = 2\<rparr>) = 0 \<and>
   vx (fposition (fp_rescale 400 300 400 300 \<lparr>fposition = Vec2 0 0, fvelocity = Vec2 1 1, fsize = 2\<rparr>)) = 0 \<and>
   vy (fposition \<lparr>fposition = Vec2 0 0, fvelocity = Vec2 1 1, fsize = 2\<rparr>) = 0 \<and>
   vy (fposition (fp_rescale 400 300 400 300 \<lparr>fposition = Vec2 0 0, fvelocity = Vec2 1 1, fsize = 2\<rparr>)) = 0 \<and>
   normal_range (1 / 49) \<and> normal_range (binary64 (1 / 49) * 49) \<and>
   \<bar>vx (fposition (fp_rescale 49 49 49 49 \<lparr>fposition = Vec2 1 1, fvelocity = Vec2 1 1, fsize = 2\<rparr>)) - 1\<bar>
     \<le> 1 / 2 ^ 52 + 1 / 2 ^ 106 \<and>
   \<bar>vy (fposition (fp_rescale 49 49 49 49 \<lparr>fposition = Vec2 1 1, fvelocity = Vec2 1 1, fsize = 2\<rparr>)) - 1\<bar>
     \<le> 1 / 2 ^ 52 + 1 / 2 ^ 106 \<and>
   (0 :: real) \<le> 0 \<and>
   fp_resize 0 100 (fst (fp_resize 0 100 one_field field_host)) field_host =
     fp_initParticles (fst (fp_resize 0 100 one_field field_host)) field_host"
proof -
  let ?P = "\<lparr>fposition = Vec2 1 1, fvelocity = Vec2 1 1, fsize = 2\<rparr>"
  let ?Z = "\<lparr>fposition = Vec2 0 0, fvelocity = Vec2 1 1, fsize = 2\<rparr>"
  note t = C6_resize_twice_same_positive_size
             [of 400 300 field_engine field_host _ _ _ 0 100 one_field field_host field_host]
  note tz = t [of ?Z 400 300]
  note tp = t [of ?P 49 49]
  from tz obtain e1 h1 l where t1:
    "perform (Resize (Some 400) (Some 300)) (field_engine, field_host) = (e1, h1)"
    and t2: "perform (Resize (Some 400) (Some 300)) (e1, h1) =
      (e1, h1\<lparr>log := l,
              objects := (\<lambda>r. map_option
                 (rescaled 400 300 ^^ (if gl field_engine = None then 0
                                       else count_list (effects field_engine) r))
                 (objects h1 r))\<rparr>)"
    by auto
  have o1: "objects h1 1 = Some (FP (one_field\<lparr>fp_width := 400, fp_height := 300,
        fp_particles := [\<lparr>fposition = Vec2 50 (75 / 2), fvelocity = Vec2 1 1, fsize = 2\<rparr>]\<rparr>))"
    using field_first_resize [of 400 300] unfolding t1 by (simp add: binary64_50 binary64_75_2)
  have p1: "positions_of (objects (snd (perform (Resize (Some 400) (Some 300))
              (field_engine, field_host))) 1) = [Vec2 50 (75 / 2)]"
    unfolding t1 using o1 by simp
  have p2: "positions_of (objects (snd (perform (Resize (Some 400) (Some 300))
              (perform (Resize (Some 400) (Some 300)) (field_engine, field_host)))) 1) =
            [Vec2 50 (75 / 2)]"
    unfolding t1 t2 using o1 by (simp add: field_engine_facts field_step2)
  have e: "fst (perform (Resize (Some 400) (Some 300))
          (perform (Resize (Some 400) (Some 300)) (field_engine, field_host))) =
     fst (perform (Resize (Some 400) (Some 300)) (field_engine, field_host))"
    unfolding t1 t2 by simp
  have z: "vx (fposition ?Z) = 0" "vy (fposition ?Z) = 0" by (simp_all add: Vec2_def)
  from tz z have z': "vx (fposition (fp_rescale 400 300 400 300 ?Z)) = 0"
    "vy (fposition (fp_rescale 400 300 400 300 ?Z)) = 0" by blast+
  have n: "normal_range (1 / 49)" "normal_range (binary64 (1 / 49) * 49)"
    unfolding binary64_49th by (simp_all add: normal_range_def power_int_minus)
  have v: "vx (fposition ?P) = 1" "vy (fposition ?P) = 1" by (simp_all add: Vec2_def)
  have n': "0 < (49 :: real) \<and> normal_range (vx (fposition ?P) / 49) \<and>
            normal_range (binary64 (vx (fposition ?P) / 49) * 49)"
    "0 < (49 :: real) \<and> normal_range (vy (fposition ?P) / 49) \<and>
            normal_range (binary64 (vy (fposition ?P) / 49) * 49)"
    unfolding v using n by simp_all
  from tp n'(1) have "\<bar>vx (fposition (fp_rescale 49 49 49 49 ?P)) - vx (fposition ?P)\<bar>
        \<le> \<bar>vx (fposition ?P)\<bar> * (1 / 2 ^ 52 + 1 / 2 ^ 106)" by blast
  then have bx: "\<bar>vx (fposition (fp_rescale 49 49 49 49 ?P)) - 1\<bar> \<le> 1 / 2 ^ 52 + 1 / 2 ^ 106"
    unfolding v by simp
  from tp n'(2) have "\<bar>vy (fposition (fp_rescale 49 49 49 49 ?P)) - vy (fposition ?P)\<bar>
        \<le> \<bar>vy (fposition ?P)\<bar> * (1 / 2 ^ 52 + 1 / 2 ^ 106)" by blast
  then have by': "\<bar>vy (fposition (fp_rescale 49 49 49 49 ?P)) - 1\<bar> \<le> 1 / 2 ^ 52 + 1 / 2 ^ 106"
    unfolding v by simp
  from tz have r: "fp_resize 0 100 (fst (fp_resize 0 100 one_field field_host)) field_host =
     fp_initParticles (fst (fp_resize 0 100 one_field field_host)) field_host" by simp
  show ?thesis
    apply (intro conjI)
    apply simp
    apply simp
    apply (rule e)
    apply (rule p1)
    apply (rule p2)
    apply (rule z(1))
    apply (rule z'(1))
    apply (rule z(2))
    apply (rule z'(2))
    apply (rule n(1))
    apply (rule n(2))
    apply (rule bx)
    apply (rule by')
    apply simp
    apply (rule r)
    done
qed

end
